theory Spec2Isabelle
  imports Main "HOL-Library.Monad_Syntax"
begin

section \<open>Literals and three-valued assignments\<close>

text \<open>
  The plugin of \<^verbatim>\<open>src/smt/theory_bv.cpp\<close> talks to the SAT core in terms of Boolean
  variables, literals and the three-valued assignment \<^verbatim>\<open>lbool\<close>.  The headers that
  declare them are not part of the sources at hand, so they are written down here the way
  the plugin uses them: a literal is a Boolean variable with a sign, \<^verbatim>\<open>~l\<close> flips the
  sign, and the reserved variable \<^verbatim>\<open>true_bool_var\<close> carries the two constant literals.
\<close>

type_synonym bool_var = nat
type_synonym theory_var = nat
type_synonym numeral = int

datatype lbool = l_false | l_undef | l_true

datatype literal = literal (var: bool_var) (sign: bool)

definition true_bool_var :: bool_var where
  "true_bool_var = 0"

definition true_literal :: literal where
  "true_literal = literal true_bool_var False"

definition false_literal :: literal where
  "false_literal = literal true_bool_var True"

text \<open>The operator \<^verbatim>\<open>~\<close> on literals (and the in-place \<^verbatim>\<open>l.neg()\<close>).\<close>

fun neg :: "literal \<Rightarrow> literal" where
  "neg (literal v s) = literal v (\<not> s)"

text \<open>The operator \<^verbatim>\<open>~\<close> on \<^verbatim>\<open>lbool\<close>.\<close>

fun lbool_neg :: "lbool \<Rightarrow> lbool" where
  "lbool_neg l_false = l_true"
| "lbool_neg l_undef = l_undef"
| "lbool_neg l_true = l_false"

text \<open>
  Modelled from the spec: \<^verbatim>\<open>context::get_assignment(literal)\<close>, the core's
  ``literal/assignment query API'', is absent from the sources.  The core stores one
  \<^verbatim>\<open>lbool\<close> per Boolean variable; a negated literal reads the complemented value.
\<close>

definition get_assignment :: "(bool_var \<Rightarrow> lbool) \<Rightarrow> literal \<Rightarrow> lbool" where
  "get_assignment asg l = (if sign l then lbool_neg (asg (var l)) else asg (var l))"

text \<open>
  Modelled from the spec: \<^verbatim>\<open>m_bb.power(i)\<close> of the external bit-blaster is absent from
  the sources; it is the weight of bit \<open>i\<close>, index 0 being the least significant bit.
\<close>

definition bb_power :: "nat \<Rightarrow> numeral" where
  "bb_power i = 2 ^ i"

section \<open>Fixed values\<close>

text \<open>
  The loop of \<^verbatim>\<open>theory_bv::get_fixed_value(theory_var, numeral &)\<close>: the iterator over
  the bits together with the counter \<open>i\<close> and the accumulator \<open>result\<close>.  The function
  returns the Boolean result paired with the final content of the out-parameter.
\<close>

fun get_fixed_value_loop ::
  "(bool_var \<Rightarrow> lbool) \<Rightarrow> literal list \<Rightarrow> nat \<Rightarrow> numeral \<Rightarrow> bool \<times> numeral" where
  "get_fixed_value_loop asg [] i result = (True, result)"
| "get_fixed_value_loop asg (l # ls) i result =
     (case get_assignment asg l of
        l_false \<Rightarrow> get_fixed_value_loop asg ls (i + 1) result
      | l_undef \<Rightarrow> (False, result)
      | l_true \<Rightarrow> get_fixed_value_loop asg ls (i + 1) (result + bb_power i))"

definition get_fixed_value_bits :: "(bool_var \<Rightarrow> lbool) \<Rightarrow> literal list \<Rightarrow> bool \<times> numeral" where
  "get_fixed_value_bits asg bits = get_fixed_value_loop asg bits 0 0"

section \<open>The state of the plugin and of the core\<close>

text \<open>
  The sort of the term behind a theory variable: only bit-vector sorts carry a width.
  A theory variable can stand for a term of another sort (\<^verbatim>\<open>bv2int\<close> makes one).
\<close>

datatype ast_sort = bv_sort nat | other_sort

text \<open>
  What the plugin reads from the enode of a theory variable: the sort of its owner and the
  root of its congruence class in the core (\<^verbatim>\<open>get_enode(v)->get_root()\<close>).
\<close>

record enode =
  get_sort :: ast_sort
  get_root :: nat

text \<open>
  The atoms of the atom table.  The occurrence list of a bit atom is the linked list
  \<^verbatim>\<open>var_pos_occ\<close>: the head of the list is the most recent occurrence.
\<close>

datatype atom =
    bit_atom (m_occs: "(theory_var \<times> nat) list")
  | le_atom (m_var: literal) (m_def: literal)

datatype zero_one_bit = zero_one_bit (m_owner: theory_var) (m_idx: nat) (m_is_true: bool)

text \<open>
  The undo objects pushed on \<^verbatim>\<open>m_trail_stack\<close>.  An \<^verbatim>\<open>add_var_pos_trail\<close> holds a pointer
  to its bit atom; the model names the atom by the Boolean variable it is registered for.
  The last two are the undo objects of the union-find structure \<^verbatim>\<open>m_find\<close>.
\<close>

datatype bv_trail =
    mk_atom_trail bool_var
  | add_var_pos_trail bool_var
  | mk_var_trail
  | merge_trail theory_var

text \<open>
  Literals that the plugin obtains by internalizing a fresh expression are kept symbolic:
  the equality atom of two theory variables (\<^verbatim>\<open>mk_eq\<close> on the owners of their enodes) and the
  exclusive-or of two bit literals (\<^verbatim>\<open>m_bb.mk_xor\<close>, then \<^verbatim>\<open>ctx.internalize\<close> and
  \<^verbatim>\<open>ctx.get_literal\<close>).  The Boolean flag is the sign, as for \<^typ>\<open>literal\<close>.
\<close>

datatype expr = eq_expr theory_var theory_var | xor_expr literal literal

datatype expr_literal = expr_literal expr bool

definition mk_eq :: "theory_var \<Rightarrow> theory_var \<Rightarrow> expr_literal" where
  "mk_eq v1 v2 = expr_literal (eq_expr v1 v2) False"

definition mk_xor :: "literal \<Rightarrow> literal \<Rightarrow> expr_literal" where
  "mk_xor l1 l2 = expr_literal (xor_expr l1 l2) False"

fun expr_neg :: "expr_literal \<Rightarrow> expr_literal" where
  "expr_neg (expr_literal e s) = expr_literal e (\<not> s)"

datatype justification =
    bit_eq_justification theory_var theory_var literal literal
  | fixed_eq_justification theory_var theory_var

text \<open>The one kind of undo object the plugin pushes on the trail of the core.\<close>

datatype ctx_trail = value_trail bool

datatype final_check_status = FC_DONE | FC_GIVEUP

text \<open>
  The state: the members of \<^verbatim>\<open>theory_bv\<close> (and of its base class and of its union-find
  \<^verbatim>\<open>m_find\<close>) that the functions below read or write, followed by the part of the core
  (\<^verbatim>\<open>get_context()\<close>) they reach.  Statistics counters and tracing are left out.
\<close>

record theory_bv =
  m_var2enode :: "enode list"
  m_var2enode_lim :: "nat list"
  m_bits :: "literal list list"
  m_wpos :: "nat list"
  m_zero_one_bits :: "zero_one_bit list list"
  m_bool_var2atom :: "bool_var \<rightharpoonup> atom"
  m_fixed_var_table :: "(numeral \<times> nat) \<rightharpoonup> theory_var"
  m_prop_queue :: "(theory_var \<times> nat) list"
  m_approximates_large_bvs :: bool
  m_bv_blast_max_size :: nat
  m_trail_stack :: "bv_trail list"
  m_scopes :: "nat list"
  m_find :: "nat list"
  m_size :: "nat list"
  m_next :: "nat list"
  ctx_assignment :: "bool_var \<Rightarrow> lbool"
  ctx_conflict :: "justification option"
  ctx_axioms :: "expr_literal list list"
  ctx_eq_queue :: "(theory_var \<times> theory_var \<times> justification) list"
  ctx_var_theory :: "bool_var \<Rightarrow> bool"
  ctx_trail_stack :: "ctx_trail list"
  ctx_scopes :: "nat list"

text \<open>A read of a vector at an index; \<open>None\<close> outside the vector.\<close>

definition nth_opt :: "'a list \<Rightarrow> nat \<Rightarrow> 'a option" where
  "nth_opt xs i = (if i < length xs then Some (xs ! i) else None)"

definition get_num_vars :: "theory_bv \<Rightarrow> nat" where
  "get_num_vars s = length (m_var2enode s)"

definition is_bv :: "theory_bv \<Rightarrow> theory_var \<Rightarrow> bool" where
  "is_bv s v = (case nth_opt (m_var2enode s) v of
                  Some n \<Rightarrow> (case get_sort n of bv_sort sz \<Rightarrow> True | other_sort \<Rightarrow> False)
                | None \<Rightarrow> False)"

text \<open>
  \<^verbatim>\<open>get_bv_size(v)\<close> is the declared width of the sort of the term behind \<open>v\<close>, not the
  current length of \<^verbatim>\<open>m_bits[v]\<close>.  It has no value for a term that is not a bit-vector.
\<close>

definition get_bv_size :: "theory_bv \<Rightarrow> theory_var \<Rightarrow> nat option" where
  "get_bv_size s v = (case nth_opt (m_var2enode s) v of
                        Some n \<Rightarrow> (case get_sort n of bv_sort sz \<Rightarrow> Some sz | other_sort \<Rightarrow> None)
                      | None \<Rightarrow> None)"

definition get_fixed_value :: "theory_bv \<Rightarrow> theory_var \<Rightarrow> (bool \<times> numeral) option" where
  "get_fixed_value s v = map_option (get_fixed_value_bits (ctx_assignment s)) (nth_opt (m_bits s) v)"

text \<open>
  Modelled from the spec: \<^verbatim>\<open>context::mk_th_axiom\<close> is absent from the sources;
  ``\<^verbatim>\<open>mk_th_axiom(clause)\<close>: asserts a theory lemma''.  The asserted clauses are kept in
  the order of assertion.
\<close>

definition mk_th_axiom :: "expr_literal list \<Rightarrow> theory_bv \<Rightarrow> theory_bv" where
  "mk_th_axiom lits s = s\<lparr>ctx_axioms := ctx_axioms s @ [lits]\<rparr>"

section \<open>Adding bits and static disequalities\<close>

text \<open>
  \<^verbatim>\<open>theory_bv::mk_new_diseq_axiom(v1, v2, idx)\<close>: the unit clause \<^verbatim>\<open>~(v1 = v2)\<close>.
  The relevancy handlers it registers in the core are not modelled.
\<close>

definition mk_new_diseq_axiom :: "theory_var \<Rightarrow> theory_var \<Rightarrow> nat \<Rightarrow> theory_bv \<Rightarrow> theory_bv" where
  "mk_new_diseq_axiom v1 v2 idx s = mk_th_axiom [expr_neg (mk_eq v1 v2)] s"

text \<open>
  \<^verbatim>\<open>theory_bv::register_true_false_bit(v, idx)\<close>.  \<open>None\<close> stands for a read outside a
  vector, here and below.
\<close>

definition register_true_false_bit :: "theory_var \<Rightarrow> nat \<Rightarrow> theory_bv \<Rightarrow> theory_bv option" where
  "register_true_false_bit v idx s =
     do {
       bits \<leftarrow> nth_opt (m_bits s) v;
       l \<leftarrow> nth_opt bits idx;
       zbits \<leftarrow> nth_opt (m_zero_one_bits s) v;
       let is_true = (l = true_literal);
       Some (s\<lparr>m_zero_one_bits := (m_zero_one_bits s)[v := zbits @ [zero_one_bit v idx is_true]]\<rparr>)
     }"

text \<open>
  The \<^verbatim>\<open>while (occs)\<close> loop of \<^verbatim>\<open>theory_bv::find_new_diseq_axioms\<close>; \<open>l\<close> is the negated
  literal computed before the loop.  The three tests are made from left to right, as
  \<^verbatim>\<open>&&\<close> does.
\<close>

fun find_new_diseq_axioms_loop ::
  "(theory_var \<times> nat) list \<Rightarrow> literal \<Rightarrow> theory_var \<Rightarrow> nat \<Rightarrow> theory_bv \<Rightarrow> theory_bv option" where
  "find_new_diseq_axioms_loop [] l v idx s = Some s"
| "find_new_diseq_axioms_loop ((v2, idx2) # occs) l v idx s =
     (if idx = idx2 then
        do {
          bits2 \<leftarrow> nth_opt (m_bits s) v2;
          l2 \<leftarrow> nth_opt bits2 idx2;
          if l2 = l then
            do {
              sz2 \<leftarrow> get_bv_size s v2;
              sz \<leftarrow> get_bv_size s v;
              find_new_diseq_axioms_loop occs l v idx
                (if sz2 = sz then mk_new_diseq_axiom v v2 idx s else s)
            }
          else find_new_diseq_axioms_loop occs l v idx s
        }
      else find_new_diseq_axioms_loop occs l v idx s)"

definition find_new_diseq_axioms ::
  "(theory_var \<times> nat) list \<Rightarrow> theory_var \<Rightarrow> nat \<Rightarrow> theory_bv \<Rightarrow> theory_bv option" where
  "find_new_diseq_axioms occs v idx s =
     do {
       bits \<leftarrow> nth_opt (m_bits s) v;
       l \<leftarrow> nth_opt bits idx;
       find_new_diseq_axioms_loop occs (neg l) v idx s
     }"

text \<open>
  \<^verbatim>\<open>theory_bv::add_bit(v, l)\<close>.  In the branch of a Boolean variable that the plugin
  already owns, the source casts the registered atom to a bit atom; a missing atom or an
  atom of the other kind is \<open>None\<close>.
\<close>

definition add_bit :: "theory_var \<Rightarrow> literal \<Rightarrow> theory_bv \<Rightarrow> theory_bv option" where
  "add_bit v l s =
     do {
       bits \<leftarrow> nth_opt (m_bits s) v;
       let idx = length bits;
       let s1 = s\<lparr>m_bits := (m_bits s)[v := bits @ [l]]\<rparr>;
       if var l = true_bool_var then register_true_false_bit v idx s1
       else if ctx_var_theory s1 (var l) then
         (case m_bool_var2atom s1 (var l) of
            Some (bit_atom occs) \<Rightarrow>
              do {
                s2 \<leftarrow> find_new_diseq_axioms occs v idx s1;
                let s3 = s2\<lparr>m_trail_stack := add_var_pos_trail (var l) # m_trail_stack s2\<rparr>;
                Some (s3\<lparr>m_bool_var2atom := (m_bool_var2atom s3)(var l \<mapsto> bit_atom ((v, idx) # occs))\<rparr>)
              }
          | _ \<Rightarrow> None)
       else
         (let s2 = s1\<lparr>ctx_var_theory := (ctx_var_theory s1)(var l := True)\<rparr>;
              s3 = s2\<lparr>m_bool_var2atom := (m_bool_var2atom s2)(var l \<mapsto> bit_atom [])\<rparr>;
              s4 = s3\<lparr>m_trail_stack := mk_atom_trail (var l) # m_trail_stack s3\<rparr>
          in Some (s4\<lparr>m_bool_var2atom := (m_bool_var2atom s4)(var l \<mapsto> bit_atom [(v, idx)])\<rparr>))
     }"

section \<open>Dynamic disequalities\<close>

text \<open>
  The first loop of \<^verbatim>\<open>theory_bv::expand_diseq\<close>: it runs over the bits of \<open>v1\<close> and moves
  the iterator over the bits of \<open>v2\<close> along; \<open>Some True\<close> is the early return on a pair of
  complementary literals.
\<close>

fun expand_diseq_static :: "literal list \<Rightarrow> literal list \<Rightarrow> bool option" where
  "expand_diseq_static [] bits2 = Some False"
| "expand_diseq_static (b1 # bits1) [] = None"
| "expand_diseq_static (b1 # bits1) (b2 # bits2) =
     (if b1 = neg b2 then Some True else expand_diseq_static bits1 bits2)"

text \<open>The second loop: it pushes one literal per position onto \<open>lits\<close>.\<close>

fun expand_diseq_lits ::
  "literal list \<Rightarrow> literal list \<Rightarrow> expr_literal list \<Rightarrow> expr_literal list option" where
  "expand_diseq_lits [] bits2 lits = Some lits"
| "expand_diseq_lits (b1 # bits1) [] lits = None"
| "expand_diseq_lits (b1 # bits1) (b2 # bits2) lits =
     expand_diseq_lits bits1 bits2 (lits @ [mk_xor b1 b2])"

definition expand_diseq :: "theory_var \<Rightarrow> theory_var \<Rightarrow> theory_bv \<Rightarrow> theory_bv option" where
  "expand_diseq v1 v2 s =
     do {
       let lits = [mk_eq v1 v2];
       bits1 \<leftarrow> nth_opt (m_bits s) v1;
       bits2 \<leftarrow> nth_opt (m_bits s) v2;
       static \<leftarrow> expand_diseq_static bits1 bits2;
       if static then Some s
       else
         do {
           lits' \<leftarrow> expand_diseq_lits bits1 bits2 lits;
           Some (mk_th_axiom lits' s)
         }
     }"

definition new_diseq_eh :: "theory_var \<Rightarrow> theory_var \<Rightarrow> theory_bv \<Rightarrow> theory_bv option" where
  "new_diseq_eh v1 v2 s = (if is_bv s v1 then expand_diseq v1 v2 s else Some s)"

section \<open>Fixed variables\<close>

text \<open>
  Modelled from the spec: \<^verbatim>\<open>context::assign_eq\<close> is absent from the sources; the plugin
  ``proposes the equality to the core'' with a justification.  The proposals are kept in
  the order they are made; the core merges later, outside the call.
\<close>

definition assign_eq :: "theory_var \<Rightarrow> theory_var \<Rightarrow> justification \<Rightarrow> theory_bv \<Rightarrow> theory_bv" where
  "assign_eq v1 v2 js s = s\<lparr>ctx_eq_queue := ctx_eq_queue s @ [(v1, v2, js)]\<rparr>"

text \<open>
  \<^verbatim>\<open>theory_bv::fixed_var_eh(v)\<close>.  The tests on the table entry \<open>v2\<close> are made from left to
  right; the read of the bits of \<open>v2\<close> comes after the range test.
\<close>

definition fixed_var_eh :: "theory_var \<Rightarrow> theory_bv \<Rightarrow> theory_bv option" where
  "fixed_var_eh v s =
     do {
       (r, val) \<leftarrow> get_fixed_value s v;
       sz \<leftarrow> get_bv_size s v;
       let key = (val, sz);
       let replace = s\<lparr>m_fixed_var_table := (m_fixed_var_table s)(key \<mapsto> v)\<rparr>;
       case m_fixed_var_table s key of
         Some v2 \<Rightarrow>
           if v2 < get_num_vars s \<and> is_bv s v2 \<and> get_bv_size s v2 = Some sz then
             do {
               (r2, val2) \<leftarrow> get_fixed_value s v2;
               if r2 \<and> val = val2 then
                 do {
                   n \<leftarrow> nth_opt (m_var2enode s) v;
                   n2 \<leftarrow> nth_opt (m_var2enode s) v2;
                   if get_root n \<noteq> get_root n2
                   then Some (assign_eq v v2 (fixed_eq_justification v v2) s)
                   else Some s
                 }
               else Some replace
             }
           else Some replace
       | None \<Rightarrow> Some replace
     }"

text \<open>
  What a justification marks in conflict resolution: \<^verbatim>\<open>cr.mark_eq\<close> and
  \<^verbatim>\<open>cr.mark_literal\<close>, in the order of the calls.
\<close>

datatype antecedent = mark_eq theory_var theory_var | mark_literal literal

text \<open>\<^verbatim>\<open>fixed_eq_justification::mark_bits\<close>.\<close>

fun mark_bits :: "(bool_var \<Rightarrow> lbool) \<Rightarrow> literal list \<Rightarrow> antecedent list" where
  "mark_bits asg [] = []"
| "mark_bits asg (l # bits) =
     (if var l \<noteq> true_bool_var then
        (if get_assignment asg l = l_true then [mark_literal l] else [mark_literal (neg l)])
      else []) @ mark_bits asg bits"

text \<open>
  The method \<^verbatim>\<open>get_antecedents\<close> of the two justification classes of the plugin.
\<close>

fun get_antecedents :: "justification \<Rightarrow> theory_bv \<Rightarrow> antecedent list option" where
  "get_antecedents (fixed_eq_justification v1 v2) s =
     do {
       bits1 \<leftarrow> nth_opt (m_bits s) v1;
       bits2 \<leftarrow> nth_opt (m_bits s) v2;
       Some (mark_bits (ctx_assignment s) bits1 @ mark_bits (ctx_assignment s) bits2)
     }"
| "get_antecedents (bit_eq_justification v1 v2 consequent antecedent) s =
     Some (mark_eq v1 v2 #
           (if var antecedent \<noteq> true_bool_var then [mark_literal antecedent] else []))"

section \<open>Approximation of large bit-vectors\<close>

text \<open>
  A term, as far as \<^verbatim>\<open>approximate_term\<close> looks at it: its sort and its arguments.
\<close>

datatype app = app (app_sort: ast_sort) (app_args: "app list")

definition INT_MAX :: nat where
  "INT_MAX = 2147483647"

text \<open>
  Modelled from the spec: \<^verbatim>\<open>context::push_trail\<close>, \<^verbatim>\<open>push_scope\<close> and \<^verbatim>\<open>pop_scope\<close> of the
  core and the class \<^verbatim>\<open>value_trail\<close> are absent from the sources.  The trail is ``an
  explicit LIFO undo trail recorded at mutation time'': a scope remembers the height of
  the trail, and leaving \<open>n\<close> scopes undoes the entries above the height remembered by
  the outermost of them, the most recent entry first.  A \<^verbatim>\<open>value_trail\<close> restores the value
  its variable had when the entry was made; the only variable the plugin registers is
  \<^verbatim>\<open>m_approximates_large_bvs\<close>.
\<close>

definition push_trail :: "ctx_trail \<Rightarrow> theory_bv \<Rightarrow> theory_bv" where
  "push_trail e s = s\<lparr>ctx_trail_stack := e # ctx_trail_stack s\<rparr>"

fun ctx_undo :: "ctx_trail \<Rightarrow> theory_bv \<Rightarrow> theory_bv" where
  "ctx_undo (value_trail old) s = s\<lparr>m_approximates_large_bvs := old\<rparr>"

lemma ctx_undo_trail_stack_same [simp]:
  "ctx_trail_stack (ctx_undo e s) = ctx_trail_stack s"
  by (cases e) simp

function ctx_undo_trail_stack :: "nat \<Rightarrow> theory_bv \<Rightarrow> theory_bv" where
  "ctx_undo_trail_stack old_size s =
     (case ctx_trail_stack s of
        [] \<Rightarrow> s
      | e # es \<Rightarrow>
          if old_size < length (ctx_trail_stack s)
          then ctx_undo_trail_stack old_size (ctx_undo e (s\<lparr>ctx_trail_stack := es\<rparr>))
          else s)"
  by pat_completeness auto
termination
  by (relation "measure (\<lambda>(old_size, s). length (ctx_trail_stack s))") auto

declare ctx_undo_trail_stack.simps [simp del]

definition ctx_push_scope :: "theory_bv \<Rightarrow> theory_bv" where
  "ctx_push_scope s = s\<lparr>ctx_scopes := ctx_scopes s @ [length (ctx_trail_stack s)]\<rparr>"

definition ctx_pop_scope :: "nat \<Rightarrow> theory_bv \<Rightarrow> theory_bv option" where
  "ctx_pop_scope num_scopes s =
     (if num_scopes = 0 then Some s
      else if num_scopes \<le> length (ctx_scopes s) then
        (let new_lvl = length (ctx_scopes s) - num_scopes;
             old_size = ctx_scopes s ! new_lvl;
             s1 = ctx_undo_trail_stack old_size s
         in Some (s1\<lparr>ctx_scopes := take new_lvl (ctx_scopes s1)\<rparr>))
      else None)"

text \<open>
  The loop of \<^verbatim>\<open>theory_bv::approximate_term\<close> over the arguments of \<open>n\<close> followed by \<open>n\<close>
  itself.
\<close>

fun approximate_term_loop :: "app list \<Rightarrow> theory_bv \<Rightarrow> bool \<times> theory_bv" where
  "approximate_term_loop [] s = (False, s)"
| "approximate_term_loop (arg # rest) s =
     (case app_sort arg of
        bv_sort sz \<Rightarrow>
          if sz > m_bv_blast_max_size s then
            (True,
             if \<not> m_approximates_large_bvs s
             then (push_trail (value_trail (m_approximates_large_bvs s)) s)
                    \<lparr>m_approximates_large_bvs := True\<rparr>
             else s)
          else approximate_term_loop rest s
      | other_sort \<Rightarrow> approximate_term_loop rest s)"

definition approximate_term :: "app \<Rightarrow> theory_bv \<Rightarrow> bool \<times> theory_bv" where
  "approximate_term n s =
     (if m_bv_blast_max_size s = INT_MAX then (False, s)
      else approximate_term_loop (app_args n @ [n]) s)"

text \<open>
  \<^verbatim>\<open>theory_bv::internalize_term\<close> and \<^verbatim>\<open>theory_bv::internalize_atom\<close>.  The \<^verbatim>\<open>switch\<close> over the
  operators, which bit-blasts through the external bit-blaster and the core, is the
  parameter \<open>internalize_op\<close>; it is reached only when the term is not approximated.
\<close>

definition internalize_term ::
  "(app \<Rightarrow> theory_bv \<Rightarrow> bool \<times> theory_bv) \<Rightarrow> app \<Rightarrow> theory_bv \<Rightarrow> bool \<times> theory_bv" where
  "internalize_term internalize_op term s =
     (case approximate_term term s of
        (True, s1) \<Rightarrow> (False, s1)
      | (False, s1) \<Rightarrow> internalize_op term s1)"

definition internalize_atom ::
  "(app \<Rightarrow> bool \<Rightarrow> theory_bv \<Rightarrow> bool \<times> theory_bv) \<Rightarrow> app \<Rightarrow> bool \<Rightarrow> theory_bv \<Rightarrow> bool \<times> theory_bv" where
  "internalize_atom internalize_op atom gate_ctx s =
     (case approximate_term atom s of
        (True, s1) \<Rightarrow> (False, s1)
      | (False, s1) \<Rightarrow> internalize_op atom gate_ctx s1)"

definition final_check_eh :: "theory_bv \<Rightarrow> final_check_status" where
  "final_check_eh s = (if m_approximates_large_bvs s then FC_GIVEUP else FC_DONE)"

section \<open>The initial state and example states\<close>

text \<open>
  The state made by the constructor \<^verbatim>\<open>theory_bv::theory_bv\<close> in a fresh core: all vectors
  and tables are empty, \<^verbatim>\<open>m_approximates_large_bvs\<close> is false, and the core has assigned
  only the reserved variable.  The parameter is \<^verbatim>\<open>m_params.m_bv_blast_max_size\<close>.
\<close>

definition init_theory_bv :: "nat \<Rightarrow> theory_bv" where
  "init_theory_bv max_size =
     \<lparr> m_var2enode = [], m_var2enode_lim = [], m_bits = [], m_wpos = [],
       m_zero_one_bits = [], m_bool_var2atom = Map.empty, m_fixed_var_table = Map.empty,
       m_prop_queue = [], m_approximates_large_bvs = False,
       m_bv_blast_max_size = max_size, m_trail_stack = [], m_scopes = [],
       m_find = [], m_size = [], m_next = [],
       ctx_assignment = (\<lambda>b. l_undef)(true_bool_var := l_true), ctx_conflict = None,
       ctx_axioms = [], ctx_eq_queue = [], ctx_var_theory = (\<lambda>b. False),
       ctx_trail_stack = [], ctx_scopes = [] \<rparr>"

section \<open>Properties of the fixed value\<close>

lemma get_fixed_value_loop_fst:
  "fst (get_fixed_value_loop asg ls i r) = (\<forall>l \<in> set ls. get_assignment asg l \<noteq> l_undef)"
  by (induction ls arbitrary: i r) (auto split: lbool.splits)

lemma get_fixed_value_loop_snd:
  "(\<forall>l \<in> set ls. get_assignment asg l \<noteq> l_undef) \<Longrightarrow>
   snd (get_fixed_value_loop asg ls i r) =
     r + (\<Sum>j<length ls. of_bool (get_assignment asg (ls ! j) = l_true) * 2 ^ (i + j))"
proof (induction ls arbitrary: i r)
  case Nil
  then show ?case by simp
next
  case (Cons l ls)
  then show ?case
    by (cases "get_assignment asg l")
      (simp_all add: sum.lessThan_Suc_shift bb_power_def del: sum.lessThan_Suc)
qed

lemma get_fixed_value_bits_fst:
  "fst (get_fixed_value_bits asg bits) \<longleftrightarrow>
     (\<forall>i<length bits. get_assignment asg (bits ! i) \<noteq> l_undef)"
  by (simp add: get_fixed_value_bits_def get_fixed_value_loop_fst all_set_conv_all_nth)

lemma get_fixed_value_bits_snd:
  assumes "fst (get_fixed_value_bits asg bits)"
  shows "snd (get_fixed_value_bits asg bits) =
      (\<Sum>i \<in> {i. i < length bits \<and> get_assignment asg (bits ! i) = l_true}. 2 ^ i)"
proof -
  from assms have "\<forall>l \<in> set bits. get_assignment asg l \<noteq> l_undef"
    by (simp add: get_fixed_value_bits_def get_fixed_value_loop_fst)
  then have "snd (get_fixed_value_bits asg bits) =
      (\<Sum>j<length bits. of_bool (get_assignment asg (bits ! j) = l_true) * 2 ^ j)"
    by (simp add: get_fixed_value_bits_def get_fixed_value_loop_snd)
  also have "\<dots> =
      (\<Sum>j\<in>{..<length bits}. if get_assignment asg (bits ! j) = l_true then 2 ^ j else 0)"
    by (rule sum.cong) auto
  also have "\<dots> =
      (\<Sum>i \<in> {i. i < length bits \<and> get_assignment asg (bits ! i) = l_true}. 2 ^ i)"
    using sum.inter_filter [of "{..<length bits}" "\<lambda>i. (2::int) ^ i"
        "\<lambda>i. get_assignment asg (bits ! i) = l_true"]
    by simp
  finally show ?thesis .
qed

text \<open>
  Claim C6.  For a theory variable \<open>v\<close> of the plugin, \<^verbatim>\<open>get_fixed_value(v, result)\<close>
  returns true if and only if no literal of \<^verbatim>\<open>m_bits[v]\<close> is unassigned in the core, and
  when it returns true, \<open>result\<close> is the sum of \<open>2 ^ i\<close> over exactly the indices \<open>i\<close> whose
  bit literal is assigned true: the numeral with index 0 as the least significant bit.
\<close>

theorem get_fixed_value_correct:
  assumes "v < length (m_bits s)"
  shows "\<exists>r result. get_fixed_value s v = Some (r, result) \<and>
     (r \<longleftrightarrow> (\<forall>i<length (m_bits s ! v).
                get_assignment (ctx_assignment s) (m_bits s ! v ! i) \<noteq> l_undef)) \<and>
     (r \<longrightarrow> result =
        (\<Sum>i \<in> {i. i < length (m_bits s ! v) \<and>
                   get_assignment (ctx_assignment s) (m_bits s ! v ! i) = l_true}. 2 ^ i))"
proof -
  let ?p = "get_fixed_value_bits (ctx_assignment s) (m_bits s ! v)"
  from assms have "get_fixed_value s v = Some (fst ?p, snd ?p)"
    by (simp add: get_fixed_value_def nth_opt_def)
  with get_fixed_value_bits_fst [of "ctx_assignment s" "m_bits s ! v"]
    get_fixed_value_bits_snd [of "ctx_assignment s" "m_bits s ! v"]
  show ?thesis by blast
qed

text \<open>
  An instance: the bits \<open>[b1, \<not> b2, b3]\<close> with \<open>b1\<close> true, \<open>b2\<close> false and \<open>b3\<close> false
  have the value \<open>1 + 2 = 3\<close>.
\<close>

definition fixed_example :: theory_bv where
  "fixed_example = (init_theory_bv 64)
     \<lparr> m_bits := [[literal 1 False, literal 2 True, literal 3 False]],
       ctx_assignment := (\<lambda>b. if b = 0 \<or> b = 1 then l_true else l_false) \<rparr>"

theorem get_fixed_value_correct_witness:
  "0 < length (m_bits fixed_example) \<and> get_fixed_value fixed_example 0 = Some (True, 3)"
proof -
  have h: "0 < length (m_bits fixed_example)"
    by (simp add: fixed_example_def)
  have v: "get_fixed_value fixed_example 0 = Some (True, 3)"
    by (simp add: get_fixed_value_def fixed_example_def init_theory_bv_def nth_opt_def
        get_fixed_value_bits_def get_assignment_def bb_power_def)
  from get_fixed_value_correct [OF h] h v show ?thesis by simp
qed

section \<open>Properties of the dynamic disequality axiom\<close>

lemma expand_diseq_static_eq_len:
  "length bits1 = length bits2 \<Longrightarrow>
   expand_diseq_static bits1 bits2 = Some (\<exists>i<length bits1. bits1 ! i = neg (bits2 ! i))"
proof (induction bits1 bits2 rule: list_induct2)
  case Nil
  then show ?case by simp
next
  case (Cons b1 bits1 b2 bits2)
  then show ?case by (auto simp: less_Suc_eq_0_disj)
qed

lemma expand_diseq_lits_eq_len:
  "length bits1 = length bits2 \<Longrightarrow>
   expand_diseq_lits bits1 bits2 lits =
     Some (lits @ map (\<lambda>i. mk_xor (bits1 ! i) (bits2 ! i)) [0..<length bits1])"
proof (induction bits1 bits2 arbitrary: lits rule: list_induct2)
  case Nil
  then show ?case by simp
next
  case (Cons b1 bits1 b2 bits2)
  have "map (\<lambda>i. mk_xor ((b1 # bits1) ! i) ((b2 # bits2) ! i)) [0..<Suc (length bits1)]
        = mk_xor b1 b2 # map (\<lambda>i. mk_xor (bits1 ! i) (bits2 ! i)) [0..<length bits1]"
    by (simp add: map_upt_Suc del: upt_Suc)
  with Cons show ?case by simp
qed

text \<open>
  Claim C3.  Let \<open>v1\<close> and \<open>v2\<close> be variables of the plugin whose bit arrays both have
  \<open>w\<close> entries.  If at some index the literal of \<open>v1\<close> is the negation of the literal of
  \<open>v2\<close>, \<^verbatim>\<open>expand_diseq(v1, v2)\<close> returns with the state unchanged: no clause is asserted.
  Otherwise it asserts exactly one clause: the equality literal of \<open>v1\<close> and \<open>v2\<close> followed
  by one exclusive-or literal per index \<open>0, \<dots>, w - 1\<close>, that is \<open>w + 1\<close> literals.
\<close>

theorem expand_diseq_correct:
  assumes "v1 < length (m_bits s)" and "v2 < length (m_bits s)"
    and "length (m_bits s ! v1) = w" and "length (m_bits s ! v2) = w"
  shows "expand_diseq v1 v2 s =
     Some (if \<exists>i<w. m_bits s ! v1 ! i = neg (m_bits s ! v2 ! i) then s
           else s\<lparr>ctx_axioms := ctx_axioms s @
                  [mk_eq v1 v2 # map (\<lambda>i. mk_xor (m_bits s ! v1 ! i) (m_bits s ! v2 ! i)) [0..<w]]\<rparr>)
   \<and> length (mk_eq v1 v2 # map (\<lambda>i. mk_xor (m_bits s ! v1 ! i) (m_bits s ! v2 ! i)) [0..<w]) = w + 1"
  using assms
  by (simp add: expand_diseq_def nth_opt_def expand_diseq_static_eq_len
      expand_diseq_lits_eq_len mk_th_axiom_def)

text \<open>
  An instance: two variables of width two over four different Boolean variables; the
  clause has three literals.
\<close>

definition expand_example :: theory_bv where
  "expand_example = (init_theory_bv 64)
     \<lparr> m_bits := [[literal 1 False, literal 2 False], [literal 3 False, literal 4 False]] \<rparr>"

theorem expand_diseq_correct_witness:
  "expand_diseq 0 1 expand_example =
     Some (expand_example\<lparr>ctx_axioms :=
       [[mk_eq 0 1, mk_xor (literal 1 False) (literal 3 False),
         mk_xor (literal 2 False) (literal 4 False)]]\<rparr>)"
proof -
  have h: "0 < length (m_bits expand_example)" "1 < length (m_bits expand_example)"
    "length (m_bits expand_example ! 0) = 2" "length (m_bits expand_example ! 1) = 2"
    by (simp_all add: expand_example_def)
  have ns: "\<not> (\<exists>i<2. m_bits expand_example ! 0 ! i = neg (m_bits expand_example ! 1 ! i))"
  proof -
    have "m_bits expand_example ! 0 ! i \<noteq> neg (m_bits expand_example ! 1 ! i)"
      if "i < 2" for i
    proof -
      from that consider "i = 0" | "i = 1" by arith
      then show ?thesis by cases (simp_all add: expand_example_def)
    qed
    then show ?thesis by blast
  qed
  have m: "map (\<lambda>i. mk_xor (m_bits expand_example ! 0 ! i) (m_bits expand_example ! 1 ! i)) [0..<2]
      = [mk_xor (literal 1 False) (literal 3 False), mk_xor (literal 2 False) (literal 4 False)]"
    by (simp add: expand_example_def upt_rec)
  have e: "ctx_axioms expand_example = []"
    by (simp add: expand_example_def init_theory_bv_def)
  from expand_diseq_correct [OF h] show ?thesis
    by (simp only: ns m e if_False append_Nil)
qed

section \<open>Properties of the static disequality scan\<close>

text \<open>
  An occurrence that the scan can read: its position exists in the bit array of its
  owner, and the owner is a bit-vector term.
\<close>

definition occ_ok :: "theory_bv \<Rightarrow> theory_var \<times> nat \<Rightarrow> bool" where
  "occ_ok s occ = (case occ of (v2, idx2) \<Rightarrow>
      v2 < length (m_bits s) \<and> idx2 < length (m_bits s ! v2) \<and> is_bv s v2)"

text \<open>
  The three tests of the scan on an occurrence, for \<open>l\<close> the negation of the new bit
  \<open>idx\<close> of \<open>v\<close>, over the bit arrays \<open>bits\<close>.
\<close>

definition diseq_occ ::
  "theory_bv \<Rightarrow> literal list list \<Rightarrow> literal \<Rightarrow> theory_var \<Rightarrow> nat \<Rightarrow> theory_var \<times> nat \<Rightarrow> bool" where
  "diseq_occ s bits l v idx occ =
     (case occ of (v2, idx2) \<Rightarrow>
        idx = idx2 \<and> bits ! v2 ! idx2 = l \<and> get_bv_size s v2 = get_bv_size s v)"

lemma is_bv_size: "is_bv s v \<Longrightarrow> \<exists>sz. get_bv_size s v = Some sz"
  by (auto simp: is_bv_def get_bv_size_def split: option.splits ast_sort.splits)

lemma mk_new_diseq_axiom_frame [simp]:
  "m_bits (mk_new_diseq_axiom v v2 idx s) = m_bits s"
  "get_bv_size (mk_new_diseq_axiom v v2 idx s) = get_bv_size s"
  "is_bv (mk_new_diseq_axiom v v2 idx s) = is_bv s"
  by (auto simp: mk_new_diseq_axiom_def mk_th_axiom_def get_bv_size_def is_bv_def fun_eq_iff)

lemma find_new_diseq_axioms_loop_spec:
  assumes "list_all (occ_ok s) occs" and "is_bv s v"
  shows "find_new_diseq_axioms_loop occs l v idx s =
     Some (s\<lparr>ctx_axioms := ctx_axioms s @
        map (\<lambda>occ. [expr_neg (mk_eq v (fst occ))])
          (filter (diseq_occ s (m_bits s) l v idx) occs)\<rparr>)"
  using assms
proof (induction occs arbitrary: s)
  case Nil
  then show ?case by simp
next
  case (Cons occ occs)
  obtain v2 idx2 where occ: "occ = (v2, idx2)" by (cases occ)
  from Cons.prems have hd: "occ_ok s occ" and rest: "list_all (occ_ok s) occs"
    by simp_all
  from hd occ have ok: "v2 < length (m_bits s)" "idx2 < length (m_bits s ! v2)" "is_bv s v2"
    by (simp_all add: occ_ok_def)
  from is_bv_size [OF ok(3)] obtain sz2 where sz2: "get_bv_size s v2 = Some sz2" by blast
  from is_bv_size [OF Cons.prems(2)] obtain sz where sz: "get_bv_size s v = Some sz" by blast
  let ?s' = "mk_new_diseq_axiom v v2 idx s"
  let ?ax = "\<lambda>occ. [expr_neg (mk_eq v (fst occ))]"
  have rest': "list_all (occ_ok ?s') occs" using rest by (simp add: occ_ok_def list_all_iff)
  have bv': "is_bv ?s' v" using Cons.prems(2) by simp
  have f: "filter (diseq_occ ?s' (m_bits ?s') l v idx) occs
           = filter (diseq_occ s (m_bits s) l v idx) occs"
    by (rule filter_cong) (auto simp: diseq_occ_def)
  show ?case
  proof (cases "idx = idx2 \<and> m_bits s ! v2 ! idx2 = l \<and> sz2 = sz")
    case True
    then have d: "diseq_occ s (m_bits s) l v idx (v2, idx2)"
      using sz sz2 by (simp add: diseq_occ_def)
    from True ok sz sz2 have
      "find_new_diseq_axioms_loop (occ # occs) l v idx s =
       find_new_diseq_axioms_loop occs l v idx ?s'"
      by (simp add: occ nth_opt_def)
    also have "\<dots> = Some (?s'\<lparr>ctx_axioms := ctx_axioms ?s' @
        map ?ax (filter (diseq_occ s (m_bits s) l v idx) occs)\<rparr>)"
      using Cons.IH [OF rest' bv'] by (simp only: f)
    also have "?s'\<lparr>ctx_axioms := ctx_axioms ?s' @
        map ?ax (filter (diseq_occ s (m_bits s) l v idx) occs)\<rparr>
      = s\<lparr>ctx_axioms := ctx_axioms s @
        map ?ax (filter (diseq_occ s (m_bits s) l v idx) (occ # occs))\<rparr>"
      using d by (simp add: occ mk_new_diseq_axiom_def mk_th_axiom_def)
    finally show ?thesis .
  next
    case False
    then have d: "\<not> diseq_occ s (m_bits s) l v idx (v2, idx2)"
      using sz sz2 by (auto simp: diseq_occ_def)
    from False ok sz sz2 have
      "find_new_diseq_axioms_loop (occ # occs) l v idx s =
       find_new_diseq_axioms_loop occs l v idx s"
      by (auto simp: occ nth_opt_def)
    with Cons.IH [OF rest Cons.prems(2)] d show ?thesis
      by (simp add: occ)
  qed
qed

lemma find_new_diseq_axioms_spec:
  assumes "v < length (m_bits s)" and "idx < length (m_bits s ! v)" and "is_bv s v"
    and "list_all (occ_ok s) occs"
  shows "find_new_diseq_axioms occs v idx s =
     Some (s\<lparr>ctx_axioms := ctx_axioms s @
        map (\<lambda>occ. [expr_neg (mk_eq v (fst occ))])
          (filter (diseq_occ s (m_bits s) (neg (m_bits s ! v ! idx)) v idx) occs)\<rparr>)"
  using assms
  by (simp add: find_new_diseq_axioms_def nth_opt_def find_new_diseq_axioms_loop_spec)

text \<open>
  Three variables for the examples: \<open>x\<close> (variable 0, width 1) has the bit \<open>b5\<close>, its
  complement (variable 1, width 1) is about to receive the bit \<open>\<not> b5\<close>, and a
  concatenation (variable 2, width 2) whose lowest bit is the bit of \<open>x\<close>.
\<close>

definition diseq_example :: theory_bv where
  "diseq_example = (init_theory_bv 64)
     \<lparr> m_var2enode := [\<lparr>get_sort = bv_sort 1, get_root = 0\<rparr>, \<lparr>get_sort = bv_sort 1, get_root = 1\<rparr>,
                       \<lparr>get_sort = bv_sort 2, get_root = 2\<rparr>],
       m_bits := [[literal 5 False], [], []],
       m_wpos := [0, 0, 0],
       m_zero_one_bits := [[], [], []],
       m_bool_var2atom := [5 \<mapsto> bit_atom [(0, 0)]],
       m_find := [0, 1, 2], m_size := [1, 1, 1], m_next := [0, 1, 2],
       ctx_var_theory := (\<lambda>b. b = 5) \<rparr>"

definition diseq_example2 :: theory_bv where
  "diseq_example2 = diseq_example
     \<lparr> m_bits := [[literal 5 False], [literal 5 True], []],
       m_bool_var2atom := [5 \<mapsto> bit_atom [(1, 0), (0, 0)]],
       m_trail_stack := [add_var_pos_trail 5],
       ctx_axioms := [[expr_neg (mk_eq 1 0)]] \<rparr>"

definition diseq_example3 :: theory_bv where
  "diseq_example3 = diseq_example2
     \<lparr> m_bits := [[literal 5 False], [literal 5 True], [literal 5 False]] \<rparr>"

text \<open>
  Claim C9.  The scan that \<^verbatim>\<open>add_bit\<close> runs over the occurrence list emits one unit
  clause per occurrence that passes three tests, in the order of the list, and nothing
  else: the index of the occurrence is the index of the new bit, the stored literal of
  the occurrence is the negation of the new literal, and the declared widths of the two
  variables are equal.  Hence no disequality axiom between \<open>v\<close> and a variable \<open>v2\<close> of
  another width is emitted by the scan, whatever literals the two share.
\<close>

theorem find_new_diseq_axioms_width_guard:
  assumes "v < length (m_bits s)" and "idx < length (m_bits s ! v)" and "is_bv s v"
    and "list_all (occ_ok s) occs"
  shows "\<exists>new. find_new_diseq_axioms occs v idx s = Some (s\<lparr>ctx_axioms := ctx_axioms s @ new\<rparr>) \<and>
     new = map (\<lambda>occ. [expr_neg (mk_eq v (fst occ))])
            (filter (\<lambda>occ. snd occ = idx \<and> m_bits s ! fst occ ! snd occ = neg (m_bits s ! v ! idx) \<and>
                            get_bv_size s (fst occ) = get_bv_size s v) occs) \<and>
     (\<forall>v2. get_bv_size s v2 \<noteq> get_bv_size s v \<longrightarrow> [expr_neg (mk_eq v v2)] \<notin> set new)"
proof -
  let ?P = "\<lambda>occ. snd occ = idx \<and> m_bits s ! fst occ ! snd occ = neg (m_bits s ! v ! idx) \<and>
                            get_bv_size s (fst occ) = get_bv_size s v"
  let ?new = "map (\<lambda>occ. [expr_neg (mk_eq v (fst occ))]) (filter ?P occs)"
  have "filter (diseq_occ s (m_bits s) (neg (m_bits s ! v ! idx)) v idx) occs = filter ?P occs"
    by (rule filter_cong) (auto simp: diseq_occ_def)
  with find_new_diseq_axioms_spec [OF assms]
  have 1: "find_new_diseq_axioms occs v idx s = Some (s\<lparr>ctx_axioms := ctx_axioms s @ ?new\<rparr>)"
    by simp
  have 2: "[expr_neg (mk_eq v v2)] \<notin> set ?new" if "get_bv_size s v2 \<noteq> get_bv_size s v" for v2
    using that by (auto simp: mk_eq_def)
  from 1 2 show ?thesis by blast
qed

text \<open>
  An instance: variable 1 holds \<open>\<not> b5\<close> at index 0 and variable 2 holds \<open>b5\<close> at
  index 0, but their widths are 1 and 2: the scan emits nothing.
\<close>

theorem find_new_diseq_axioms_width_guard_witness:
  "find_new_diseq_axioms [(1, 0), (0, 0)] 2 0 diseq_example3 = Some diseq_example3 \<and>
   m_bits diseq_example3 ! 1 ! 0 = neg (m_bits diseq_example3 ! 2 ! 0) \<and>
   get_bv_size diseq_example3 1 \<noteq> get_bv_size diseq_example3 2"
proof -
  have h: "2 < length (m_bits diseq_example3)" "0 < length (m_bits diseq_example3 ! 2)"
    "is_bv diseq_example3 2" "list_all (occ_ok diseq_example3) [(1, 0), (0, 0)]"
    by (simp_all add: diseq_example3_def diseq_example2_def diseq_example_def
        init_theory_bv_def is_bv_def occ_ok_def nth_opt_def)
  have sz: "get_bv_size diseq_example3 0 = Some 1" "get_bv_size diseq_example3 1 = Some 1"
    "get_bv_size diseq_example3 2 = Some 2"
    by (simp_all add: diseq_example3_def diseq_example2_def diseq_example_def
        init_theory_bv_def get_bv_size_def nth_opt_def)
  have b: "m_bits diseq_example3 ! 1 ! 0 = neg (m_bits diseq_example3 ! 2 ! 0)"
    by (simp add: diseq_example3_def)
  from find_new_diseq_axioms_width_guard [OF h] obtain new where
    1: "find_new_diseq_axioms [(1, 0), (0, 0)] 2 0 diseq_example3 =
        Some (diseq_example3\<lparr>ctx_axioms := ctx_axioms diseq_example3 @ new\<rparr>)"
    and 2: "new = map (\<lambda>occ. [expr_neg (mk_eq 2 (fst occ))])
            (filter (\<lambda>occ. snd occ = 0 \<and>
                m_bits diseq_example3 ! fst occ ! snd occ = neg (m_bits diseq_example3 ! 2 ! 0) \<and>
                get_bv_size diseq_example3 (fst occ) = get_bv_size diseq_example3 2)
              [(1, 0), (0, 0)])"
    by blast
  from 2 have "new = []"
    by (simp add: sz sz [simplified])
  with 1 b sz show ?thesis by simp
qed

lemma occ_ok_add_bit:
  assumes "occ_ok s occ" and "v < length (m_bits s)"
  shows "occ_ok (s\<lparr>m_bits := (m_bits s)[v := m_bits s ! v @ [l]]\<rparr>) occ"
  using assms
  by (cases occ) (auto simp: occ_ok_def is_bv_def nth_list_update less_Suc_eq)

text \<open>
  Claim C2, as the code has it.  Let \<open>l\<close> be a literal over a Boolean variable that
  already belongs to a bit atom with occurrence list \<open>occs\<close>, and let \<open>idx\<close> be the index
  of the new bit of \<open>v\<close>.  Then \<^verbatim>\<open>add_bit(v, l)\<close> appends \<open>l\<close> to the bits of \<open>v\<close>, emits the
  unit clause \<^verbatim>\<open>~(v = v2)\<close> for every occurrence \<open>(v2, idx2)\<close> of the list with
  \<open>idx2 = idx\<close>, stored literal \<open>\<not> l\<close> and the same declared width as \<open>v\<close>, and for no
  other occurrence, and only then puts \<open>(v, idx)\<close> at the head of the occurrence list,
  with an undo record on the trail.
\<close>

theorem add_bit_static_diseq:
  assumes "v < length (m_bits s)" and "is_bv s v"
    and "var l \<noteq> true_bool_var" and "ctx_var_theory s (var l)"
    and "m_bool_var2atom s (var l) = Some (bit_atom occs)"
    and "list_all (occ_ok s) occs"
  shows "add_bit v l s =
     Some (s\<lparr>m_bits := (m_bits s)[v := m_bits s ! v @ [l]],
             ctx_axioms := ctx_axioms s @
               map (\<lambda>occ. [expr_neg (mk_eq v (fst occ))])
                 (filter (\<lambda>occ. snd occ = length (m_bits s ! v) \<and>
                                 m_bits s ! fst occ ! snd occ = neg l \<and>
                                 get_bv_size s (fst occ) = get_bv_size s v) occs),
             m_trail_stack := add_var_pos_trail (var l) # m_trail_stack s,
             m_bool_var2atom :=
               (m_bool_var2atom s)(var l \<mapsto> bit_atom ((v, length (m_bits s ! v)) # occs))\<rparr>)"
proof -
  let ?idx = "length (m_bits s ! v)"
  let ?s1 = "s\<lparr>m_bits := (m_bits s)[v := m_bits s ! v @ [l]]\<rparr>"
  have ok1: "list_all (occ_ok ?s1) occs"
    using assms(6) assms(1) by (simp add: list_all_iff occ_ok_add_bit)
  have v1: "v < length (m_bits ?s1)" "?idx < length (m_bits ?s1 ! v)" "is_bv ?s1 v"
    using assms(1,2) by (simp_all add: is_bv_def)
  have l1: "m_bits ?s1 ! v ! ?idx = l"
    using assms(1) by simp
  have sz: "get_bv_size ?s1 = get_bv_size s"
    by (simp add: get_bv_size_def fun_eq_iff)
  have f: "filter (diseq_occ ?s1 (m_bits ?s1) (neg l) v ?idx) occs =
           filter (\<lambda>occ. snd occ = ?idx \<and> m_bits s ! fst occ ! snd occ = neg l \<and>
                          get_bv_size s (fst occ) = get_bv_size s v) occs"
  proof (rule filter_cong [OF refl])
    fix occ assume "occ \<in> set occs"
    with assms(6) have "occ_ok s occ" by (simp add: list_all_iff)
    then have "snd occ = ?idx \<Longrightarrow> fst occ \<noteq> v"
      by (cases occ) (auto simp: occ_ok_def)
    then show "diseq_occ ?s1 (m_bits ?s1) (neg l) v ?idx occ =
         (snd occ = ?idx \<and> m_bits s ! fst occ ! snd occ = neg l \<and>
          get_bv_size s (fst occ) = get_bv_size s v)"
      by (cases occ) (auto simp: diseq_occ_def sz)
  qed
  have scan: "find_new_diseq_axioms occs v ?idx ?s1 =
      Some (?s1\<lparr>ctx_axioms := ctx_axioms ?s1 @
        map (\<lambda>occ. [expr_neg (mk_eq v (fst occ))])
          (filter (\<lambda>occ. snd occ = ?idx \<and> m_bits s ! fst occ ! snd occ = neg l \<and>
                          get_bv_size s (fst occ) = get_bv_size s v) occs)\<rparr>)"
    using find_new_diseq_axioms_spec [OF v1 ok1] by (simp only: l1 f)
  show ?thesis
    using assms(1,3,4,5) by (simp add: add_bit_def nth_opt_def scan Let_def)
qed

text \<open>
  An instance: adding \<open>\<not> b5\<close> as bit 0 of variable 1 meets the occurrence \<open>(0, 0)\<close> with
  the stored literal \<open>b5\<close> and the same width, and emits the clause \<^verbatim>\<open>~(1 = 0)\<close>.
\<close>

theorem add_bit_static_diseq_witness:
  "add_bit 1 (literal 5 True) diseq_example = Some diseq_example2"
proof -
  have h: "1 < length (m_bits diseq_example)" "is_bv diseq_example 1"
    "var (literal 5 True) \<noteq> true_bool_var" "ctx_var_theory diseq_example (var (literal 5 True))"
    "m_bool_var2atom diseq_example (var (literal 5 True)) = Some (bit_atom [(0, 0)])"
    "list_all (occ_ok diseq_example) [(0, 0)]"
    by (simp_all add: diseq_example_def init_theory_bv_def is_bv_def occ_ok_def nth_opt_def
        true_bool_var_def)
  have sz: "get_bv_size diseq_example 0 = Some 1" "get_bv_size diseq_example 1 = Some 1"
    by (simp_all add: diseq_example_def init_theory_bv_def get_bv_size_def nth_opt_def)
  have f: "filter (\<lambda>occ. snd occ = length (m_bits diseq_example ! 1) \<and>
              m_bits diseq_example ! fst occ ! snd occ = neg (literal 5 True) \<and>
              get_bv_size diseq_example (fst occ) = get_bv_size diseq_example 1) [(0, 0)]
           = [(0, 0)]"
    by (simp add: sz sz [simplified]) (simp add: diseq_example_def)
  have e: "diseq_example
      \<lparr>m_bits := (m_bits diseq_example)[1 := m_bits diseq_example ! 1 @ [literal 5 True]],
        ctx_axioms := ctx_axioms diseq_example @
          map (\<lambda>occ. [expr_neg (mk_eq 1 (fst occ))]) [(0, 0)],
        m_trail_stack := add_var_pos_trail (var (literal 5 True)) # m_trail_stack diseq_example,
        m_bool_var2atom := (m_bool_var2atom diseq_example)(var (literal 5 True) \<mapsto>
          bit_atom ((1, length (m_bits diseq_example ! 1)) # [(0, 0)]))\<rparr> = diseq_example2"
    by (simp add: diseq_example_def diseq_example2_def init_theory_bv_def)
  from add_bit_static_diseq [OF h] show ?thesis
    by (simp only: f e)
qed

text \<open>
  The claim as the spec words it fails: adding \<open>b5\<close> as bit 0 of variable 2 meets the
  occurrence \<open>(1, 0)\<close>, at the same index and with the stored literal \<open>\<not> b5\<close>, and no
  axiom is emitted, because the widths of the variables 1 and 2 differ.
\<close>

theorem add_bit_static_diseq_counterexample:
  "m_bool_var2atom diseq_example2 (var (literal 5 False)) = Some (bit_atom [(1, 0), (0, 0)]) \<and>
   length (m_bits diseq_example2 ! 2) = 0 \<and>
   m_bits diseq_example2 ! 1 ! 0 = neg (literal 5 False) \<and>
   (\<exists>s'. add_bit 2 (literal 5 False) diseq_example2 = Some s' \<and>
         ctx_axioms s' = ctx_axioms diseq_example2 \<and>
         [expr_neg (mk_eq 2 1)] \<notin> set (ctx_axioms s'))"
  by (simp add: add_bit_def diseq_example_def diseq_example2_def init_theory_bv_def nth_opt_def
      true_bool_var_def find_new_diseq_axioms_def get_bv_size_def mk_eq_def)

section \<open>Properties of the fixed-value table\<close>

text \<open>
  The tests of \<^verbatim>\<open>fixed_var_eh\<close> on the variable \<open>v2\<close> found in the table: it is a variable of
  the plugin, of a bit-vector sort of width \<open>sz\<close>, and all its bits are assigned, with the
  value \<open>val\<close>.
\<close>

definition valid_fixed :: "theory_bv \<Rightarrow> numeral \<Rightarrow> nat \<Rightarrow> theory_var \<Rightarrow> bool" where
  "valid_fixed s val sz v2 \<longleftrightarrow>
     v2 < get_num_vars s \<and> is_bv s v2 \<and> get_bv_size s v2 = Some sz \<and>
     get_fixed_value s v2 = Some (True, val)"

lemma mark_bits_eq:
  "mark_bits asg bits =
     map (\<lambda>l. mark_literal (if get_assignment asg l = l_true then l else neg l))
       (filter (\<lambda>l. var l \<noteq> true_bool_var) bits)"
  by (induction bits) auto

lemma get_fixed_value_Some:
  "v < length (m_bits s) \<Longrightarrow> \<exists>r val. get_fixed_value s v = Some (r, val)"
  by (simp add: get_fixed_value_def nth_opt_def)

text \<open>
  Claim C5, as the code has it.  Let every bit of \<open>v\<close> be assigned, with value \<open>val\<close>, and
  let \<open>sz\<close> be the width of \<open>v\<close>.  If the table has no entry for \<open>(val, sz)\<close>, the entry
  \<open>(val, sz) \<mapsto> v\<close> is inserted and nothing is proposed.  If the entry is a variable that
  fails one of the tests, it is replaced by \<open>v\<close>.  If the entry \<open>v2\<close> passes the tests and
  the roots of \<open>v\<close> and \<open>v2\<close> in the core differ, the equality of \<open>v\<close> and \<open>v2\<close> is proposed
  to the core, and its justification marks, for every bit literal of \<open>v\<close> and then of \<open>v2\<close>
  over a Boolean variable other than the reserved \<^verbatim>\<open>true_bool_var\<close>, the literal if it is
  assigned true and its negation otherwise; the constant literals are not marked.
\<close>

theorem fixed_var_eh_cases:
  assumes "length (m_bits s) = length (m_var2enode s)"
    and "get_fixed_value s v = Some (True, val)" and "get_bv_size s v = Some sz"
  shows
   "(m_fixed_var_table s (val, sz) = None \<longrightarrow>
       fixed_var_eh v s = Some (s\<lparr>m_fixed_var_table := (m_fixed_var_table s)((val, sz) \<mapsto> v)\<rparr>)) \<and>
    (\<forall>v2. m_fixed_var_table s (val, sz) = Some v2 \<and> \<not> valid_fixed s val sz v2 \<longrightarrow>
       fixed_var_eh v s = Some (s\<lparr>m_fixed_var_table := (m_fixed_var_table s)((val, sz) \<mapsto> v)\<rparr>)) \<and>
    (\<forall>v2. m_fixed_var_table s (val, sz) = Some v2 \<and> valid_fixed s val sz v2 \<and>
          get_root (m_var2enode s ! v) \<noteq> get_root (m_var2enode s ! v2) \<longrightarrow>
       fixed_var_eh v s =
         Some (s\<lparr>ctx_eq_queue := ctx_eq_queue s @ [(v, v2, fixed_eq_justification v v2)]\<rparr>) \<and>
       get_antecedents (fixed_eq_justification v v2) s =
         Some (map (\<lambda>l. mark_literal (if get_assignment (ctx_assignment s) l = l_true then l else neg l))
                (filter (\<lambda>l. var l \<noteq> true_bool_var) (m_bits s ! v @ m_bits s ! v2))))"
proof -
  from assms(3) have vn: "v < length (m_var2enode s)"
    by (auto simp: get_bv_size_def nth_opt_def split: if_splits)
  with assms(1) have vb: "v < length (m_bits s)" by simp
  have a: "fixed_var_eh v s = Some (s\<lparr>m_fixed_var_table := (m_fixed_var_table s)((val, sz) \<mapsto> v)\<rparr>)"
    if "m_fixed_var_table s (val, sz) = None"
    using that assms(2,3) by (simp add: fixed_var_eh_def)
  have b: "fixed_var_eh v s = Some (s\<lparr>m_fixed_var_table := (m_fixed_var_table s)((val, sz) \<mapsto> v)\<rparr>)"
    if "m_fixed_var_table s (val, sz) = Some v2" and "\<not> valid_fixed s val sz v2" for v2
  proof (cases "v2 < get_num_vars s \<and> is_bv s v2 \<and> get_bv_size s v2 = Some sz")
    case True
    then have "v2 < length (m_bits s)" using assms(1) by (simp add: get_num_vars_def)
    from get_fixed_value_Some [OF this] obtain r2 val2
      where g: "get_fixed_value s v2 = Some (r2, val2)" by blast
    with True that(2) have "\<not> (r2 \<and> val = val2)" by (auto simp: valid_fixed_def)
    with True g that(1) assms(2,3) show ?thesis
      by (auto simp: fixed_var_eh_def)
  next
    case False
    with that(1) assms(2,3) show ?thesis
      by (auto simp: fixed_var_eh_def)
  qed
  have c: "fixed_var_eh v s =
         Some (s\<lparr>ctx_eq_queue := ctx_eq_queue s @ [(v, v2, fixed_eq_justification v v2)]\<rparr>) \<and>
       get_antecedents (fixed_eq_justification v v2) s =
         Some (map (\<lambda>l. mark_literal (if get_assignment (ctx_assignment s) l = l_true then l else neg l))
                (filter (\<lambda>l. var l \<noteq> true_bool_var) (m_bits s ! v @ m_bits s ! v2)))"
    if "m_fixed_var_table s (val, sz) = Some v2" and "valid_fixed s val sz v2"
      and "get_root (m_var2enode s ! v) \<noteq> get_root (m_var2enode s ! v2)" for v2
  proof -
    from that(2) have v2: "v2 < length (m_var2enode s)" "is_bv s v2" "get_bv_size s v2 = Some sz"
      "get_fixed_value s v2 = Some (True, val)"
      by (simp_all add: valid_fixed_def get_num_vars_def)
    from v2(1) assms(1) have v2b: "v2 < length (m_bits s)" by simp
    have 1: "fixed_var_eh v s =
         Some (s\<lparr>ctx_eq_queue := ctx_eq_queue s @ [(v, v2, fixed_eq_justification v v2)]\<rparr>)"
      using that(1,3) v2 vn assms(2,3)
      by (simp add: fixed_var_eh_def get_num_vars_def nth_opt_def assign_eq_def)
    have 2: "get_antecedents (fixed_eq_justification v v2) s =
         Some (map (\<lambda>l. mark_literal (if get_assignment (ctx_assignment s) l = l_true then l else neg l))
                (filter (\<lambda>l. var l \<noteq> true_bool_var) (m_bits s ! v @ m_bits s ! v2)))"
      using vb v2b by (simp add: nth_opt_def mark_bits_eq)
    from 1 2 show ?thesis ..
  qed
  from a b c show ?thesis by blast
qed

text \<open>
  An instance: variable 1 is the numeral 1 of width 1, variable 0 has the single bit
  \<open>b7\<close>, assigned true, and is the entry of the table for the value 1 and the width 1.
\<close>

definition fixed_table_example :: theory_bv where
  "fixed_table_example = (init_theory_bv 64)
     \<lparr> m_var2enode := [\<lparr>get_sort = bv_sort 1, get_root = 0\<rparr>, \<lparr>get_sort = bv_sort 1, get_root = 1\<rparr>],
       m_bits := [[literal 7 False], [true_literal]],
       m_wpos := [0, 0],
       m_zero_one_bits := [[], [zero_one_bit 1 0 True]],
       m_bool_var2atom := [7 \<mapsto> bit_atom [(0, 0)]],
       m_fixed_var_table := [(1, 1) \<mapsto> 0],
       m_find := [0, 1], m_size := [1, 1], m_next := [0, 1],
       ctx_assignment := (\<lambda>b. if b = 0 \<or> b = 7 then l_true else l_undef),
       ctx_var_theory := (\<lambda>b. b = 7) \<rparr>"

lemma fixed_table_example_facts:
  "length (m_bits fixed_table_example) = length (m_var2enode fixed_table_example)"
  "get_fixed_value fixed_table_example 1 = Some (True, 1)"
  "get_bv_size fixed_table_example 1 = Some 1"
  "m_fixed_var_table fixed_table_example (1, 1) = Some 0"
  "valid_fixed fixed_table_example 1 1 0"
  "get_root (m_var2enode fixed_table_example ! 1) \<noteq> get_root (m_var2enode fixed_table_example ! 0)"
  by (simp_all add: fixed_table_example_def init_theory_bv_def get_fixed_value_def nth_opt_def
      get_fixed_value_bits_def get_assignment_def bb_power_def get_bv_size_def valid_fixed_def
      get_num_vars_def is_bv_def true_literal_def true_bool_var_def)

theorem fixed_var_eh_cases_witness:
  "fixed_var_eh 1 fixed_table_example =
     Some (fixed_table_example\<lparr>ctx_eq_queue := [(1, 0, fixed_eq_justification 1 0)]\<rparr>) \<and>
   get_antecedents (fixed_eq_justification 1 0) fixed_table_example =
     Some [mark_literal (literal 7 False)]"
proof -
  have q: "ctx_eq_queue fixed_table_example = []"
    by (simp add: fixed_table_example_def init_theory_bv_def)
  have m: "map (\<lambda>l. mark_literal
              (if get_assignment (ctx_assignment fixed_table_example) l = l_true then l else neg l))
            (filter (\<lambda>l. var l \<noteq> true_bool_var)
              (m_bits fixed_table_example ! 1 @ m_bits fixed_table_example ! 0))
          = [mark_literal (literal 7 False)]"
    by (simp add: fixed_table_example_def true_literal_def true_bool_var_def get_assignment_def)
  from fixed_var_eh_cases [OF fixed_table_example_facts(1,2,3)] fixed_table_example_facts(4,5,6)
  have "fixed_var_eh 1 fixed_table_example =
         Some (fixed_table_example\<lparr>ctx_eq_queue :=
            ctx_eq_queue fixed_table_example @ [(1, 0, fixed_eq_justification 1 0)]\<rparr>) \<and>
       get_antecedents (fixed_eq_justification 1 0) fixed_table_example =
         Some (map (\<lambda>l. mark_literal
              (if get_assignment (ctx_assignment fixed_table_example) l = l_true then l else neg l))
            (filter (\<lambda>l. var l \<noteq> true_bool_var)
              (m_bits fixed_table_example ! 1 @ m_bits fixed_table_example ! 0)))"
    by blast
  then show ?thesis by (simp only: q m append_Nil)
qed

text \<open>
  The claim as the spec words it fails on the same state: the equality of the variables
  1 and 0 is proposed, the only bit literal of variable 1 is the constant
  \<^verbatim>\<open>true_literal\<close>, and the justification marks neither it nor its negation.
\<close>

theorem fixed_var_eh_counterexample:
  "fixed_var_eh 1 fixed_table_example =
     Some (fixed_table_example\<lparr>ctx_eq_queue := [(1, 0, fixed_eq_justification 1 0)]\<rparr>) \<and>
   m_bits fixed_table_example ! 1 = [true_literal] \<and>
   (\<exists>marked. get_antecedents (fixed_eq_justification 1 0) fixed_table_example = Some marked \<and>
      mark_literal true_literal \<notin> set marked \<and> mark_literal (neg true_literal) \<notin> set marked)"
  by (simp add: fixed_var_eh_def fixed_table_example_def init_theory_bv_def get_fixed_value_def
      nth_opt_def get_fixed_value_bits_def get_assignment_def bb_power_def get_bv_size_def
      get_num_vars_def is_bv_def true_literal_def true_bool_var_def assign_eq_def)

section \<open>Properties of the approximation\<close>

text \<open>A term is oversized when its sort is a bit-vector sort wider than the maximum.\<close>

definition oversized :: "theory_bv \<Rightarrow> app \<Rightarrow> bool" where
  "oversized s arg = (case app_sort arg of bv_sort sz \<Rightarrow> sz > m_bv_blast_max_size s | other_sort \<Rightarrow> False)"

definition set_approximates :: "theory_bv \<Rightarrow> theory_bv" where
  "set_approximates s =
     (if m_approximates_large_bvs s then s
      else s\<lparr>ctx_trail_stack := value_trail False # ctx_trail_stack s,
             m_approximates_large_bvs := True\<rparr>)"

lemma approximate_term_loop_spec:
  "approximate_term_loop args s =
     (if \<exists>arg \<in> set args. oversized s arg then (True, set_approximates s) else (False, s))"
  by (induction args) (auto simp: oversized_def set_approximates_def push_trail_def split: ast_sort.splits)

lemma approximate_term_spec:
  "approximate_term n s =
     (if m_bv_blast_max_size s \<noteq> INT_MAX \<and> (\<exists>arg \<in> set (app_args n @ [n]). oversized s arg)
      then (True, set_approximates s) else (False, s))"
  by (simp add: approximate_term_def approximate_term_loop_spec)

text \<open>
  Claim C8.  Let the configured maximum be a bound (not \<^verbatim>\<open>INT_MAX\<close>) and let the term, or
  one of its arguments, have a bit-vector sort wider than it.  Then \<^verbatim>\<open>internalize_term\<close> and
  \<^verbatim>\<open>internalize_atom\<close> return false without reaching the internalization of the operator:
  the state they return is the state before the call with \<^verbatim>\<open>m_approximates_large_bvs\<close> set
  (and, when it was not set before, one undo entry on the trail of the core).  In every
  state where the flag is set \<^verbatim>\<open>final_check_eh\<close> returns \<^verbatim>\<open>FC_GIVEUP\<close>, and \<^verbatim>\<open>FC_DONE\<close> in every
  other state.
\<close>

theorem approximate_term_refuses:
  assumes "m_bv_blast_max_size s \<noteq> INT_MAX"
    and "oversized s n \<or> (\<exists>arg \<in> set (app_args n). oversized s arg)"
  shows "\<exists>s'. internalize_term term_op n s = (False, s') \<and>
              internalize_atom atom_op n gate_ctx s = (False, s') \<and>
              s' = set_approximates s \<and>
              m_approximates_large_bvs s' \<and>
              final_check_eh s' = FC_GIVEUP \<and>
              (\<forall>t. m_approximates_large_bvs t \<longrightarrow> final_check_eh t = FC_GIVEUP) \<and>
              (\<forall>t. \<not> m_approximates_large_bvs t \<longrightarrow> final_check_eh t = FC_DONE)"
proof -
  from assms have "approximate_term n s = (True, set_approximates s)"
    by (auto simp: approximate_term_spec)
  then show ?thesis
    by (auto simp: internalize_term_def internalize_atom_def final_check_eh_def set_approximates_def)
qed


text \<open>An instance: a term of width 16 under the maximum 8.\<close>

theorem approximate_term_refuses_witness:
  "internalize_term (\<lambda>n s. (True, s)) (app (bv_sort 16) []) (init_theory_bv 8) =
     (False, (init_theory_bv 8)\<lparr>ctx_trail_stack := [value_trail False],
                                 m_approximates_large_bvs := True\<rparr>) \<and>
   internalize_atom (\<lambda>n g s. (True, s)) (app (bv_sort 16) []) False (init_theory_bv 8) =
     (False, (init_theory_bv 8)\<lparr>ctx_trail_stack := [value_trail False],
                                 m_approximates_large_bvs := True\<rparr>) \<and>
   final_check_eh ((init_theory_bv 8)\<lparr>ctx_trail_stack := [value_trail False],
                                       m_approximates_large_bvs := True\<rparr>) = FC_GIVEUP"
proof -
  have h: "m_bv_blast_max_size (init_theory_bv 8) \<noteq> INT_MAX"
    "oversized (init_theory_bv 8) (app (bv_sort 16) []) \<or>
     (\<exists>arg \<in> set (app_args (app (bv_sort 16) [])). oversized (init_theory_bv 8) arg)"
    by (simp_all add: init_theory_bv_def INT_MAX_def oversized_def)
  have e: "set_approximates (init_theory_bv 8) =
      (init_theory_bv 8)\<lparr>ctx_trail_stack := [value_trail False], m_approximates_large_bvs := True\<rparr>"
    by (simp add: set_approximates_def init_theory_bv_def)
  from approximate_term_refuses [OF h, of "\<lambda>n s. (True, s)" "\<lambda>n g s. (True, s)" False]
  show ?thesis by (auto simp: e)
qed

section \<open>The approximation mark and the scopes of the core\<close>

lemma ctx_undo_trail_stack_le:
  "length (ctx_trail_stack s) \<le> k \<Longrightarrow> ctx_undo_trail_stack k s = s"
  by (subst ctx_undo_trail_stack.simps) (auto split: list.splits)

lemma ctx_undo_trail_stack_set_approximates:
  assumes "k \<le> length (ctx_trail_stack s)"
  shows "ctx_undo_trail_stack k (set_approximates s) = ctx_undo_trail_stack k s"
proof (cases "m_approximates_large_bvs s")
  case True
  then show ?thesis by (simp add: set_approximates_def)
next
  case False
  let ?s' = "s\<lparr>ctx_trail_stack := value_trail False # ctx_trail_stack s,
               m_approximates_large_bvs := True\<rparr>"
  have "ctx_undo_trail_stack k ?s' =
        ctx_undo_trail_stack k (ctx_undo (value_trail False) (?s'\<lparr>ctx_trail_stack := ctx_trail_stack s\<rparr>))"
    using assms by (subst ctx_undo_trail_stack.simps) simp
  also have "ctx_undo (value_trail False) (?s'\<lparr>ctx_trail_stack := ctx_trail_stack s\<rparr>) = s"
    using False by simp
  finally show ?thesis using False by (simp add: set_approximates_def)
qed

text \<open>The attempts to internalize the terms \<open>ns\<close>, one after the other.\<close>

fun approximate_terms :: "app list \<Rightarrow> theory_bv \<Rightarrow> theory_bv" where
  "approximate_terms [] s = s"
| "approximate_terms (n # ns) s = approximate_terms ns (snd (approximate_term n s))"

lemma approximate_term_cases:
  "snd (approximate_term n s) = s \<or> snd (approximate_term n s) = set_approximates s"
  by (simp add: approximate_term_spec)

lemma set_approximates_trail_length:
  "length (ctx_trail_stack s) \<le> length (ctx_trail_stack (set_approximates s))"
  by (simp add: set_approximates_def)

lemma approximate_terms_undo:
  "k \<le> length (ctx_trail_stack s) \<Longrightarrow>
   ctx_undo_trail_stack k (approximate_terms ns s) = ctx_undo_trail_stack k s"
proof (induction ns arbitrary: s)
  case Nil
  then show ?case by simp
next
  case (Cons n ns)
  from approximate_term_cases [of n s] show ?case
  proof
    assume "snd (approximate_term n s) = s"
    with Cons show ?thesis by simp
  next
    assume a: "snd (approximate_term n s) = set_approximates s"
    from Cons.prems set_approximates_trail_length [of s]
    have "k \<le> length (ctx_trail_stack (set_approximates s))" by simp
    from Cons.IH [OF this] a Cons.prems show ?thesis
      by (simp add: ctx_undo_trail_stack_set_approximates)
  qed
qed

lemma approximate_terms_scopes [simp]:
  "ctx_scopes (approximate_terms ns s) = ctx_scopes s"
proof (induction ns arbitrary: s)
  case Nil
  then show ?case by simp
next
  case (Cons n ns)
  from approximate_term_cases [of n s] Cons show ?case
    by (auto simp: set_approximates_def)
qed

lemma set_approximates_frame [simp]:
  "m_bv_blast_max_size (set_approximates s) = m_bv_blast_max_size s"
  "m_approximates_large_bvs (set_approximates s)"
  "oversized (set_approximates s) = oversized s"
  by (auto simp: set_approximates_def oversized_def fun_eq_iff split: ast_sort.splits)

lemma approximate_terms_keeps_flag:
  "m_approximates_large_bvs s \<Longrightarrow> m_approximates_large_bvs (approximate_terms ns s)"
proof (induction ns arbitrary: s)
  case Nil
  then show ?case by simp
next
  case (Cons n ns)
  from approximate_term_cases [of n s] Cons show ?case by auto
qed

lemma approximate_terms_flag:
  assumes "m_bv_blast_max_size s \<noteq> INT_MAX"
    and "\<exists>n \<in> set ns. \<exists>arg \<in> set (app_args n @ [n]). oversized s arg"
  shows "m_approximates_large_bvs (approximate_terms ns s)"
  using assms
proof (induction ns arbitrary: s)
  case Nil
  then show ?case by simp
next
  case (Cons n ns)
  show ?case
  proof (cases "\<exists>arg \<in> set (app_args n @ [n]). oversized s arg")
    case True
    with Cons.prems(1) have "snd (approximate_term n s) = set_approximates s"
      by (simp add: approximate_term_spec)
    then show ?thesis by (simp add: approximate_terms_keeps_flag)
  next
    case False
    then have "snd (approximate_term n s) = s"
      by (simp add: approximate_term_spec)
    with Cons False show ?thesis by auto
  qed
qed

lemma approximate_terms_round_trip:
  "ctx_pop_scope 1 (approximate_terms ns (ctx_push_scope s)) = Some s"
proof -
  define s1 where "s1 = ctx_push_scope s"
  define k where "k = length (ctx_trail_stack s)"
  have s1: "ctx_trail_stack s1 = ctx_trail_stack s" "ctx_scopes s1 = ctx_scopes s @ [k]"
    "s1\<lparr>ctx_scopes := ctx_scopes s\<rparr> = s"
    by (simp_all add: s1_def k_def ctx_push_scope_def)
  have "ctx_undo_trail_stack k (approximate_terms ns s1) = ctx_undo_trail_stack k s1"
    by (rule approximate_terms_undo) (simp add: s1 k_def)
  also have "\<dots> = s1"
    by (rule ctx_undo_trail_stack_le) (simp add: s1 k_def)
  finally have u: "ctx_undo_trail_stack k (approximate_terms ns s1) = s1" .
  have "ctx_pop_scope 1 (approximate_terms ns s1) = Some (s1\<lparr>ctx_scopes := ctx_scopes s\<rparr>)"
    by (simp add: ctx_pop_scope_def Let_def s1 u)
  then show ?thesis by (simp add: s1 flip: s1_def)
qed

lemma ctx_push_scope_frame [simp]:
  "m_bv_blast_max_size (ctx_push_scope s) = m_bv_blast_max_size s"
  "oversized (ctx_push_scope s) = oversized s"
  by (auto simp: ctx_push_scope_def oversized_def fun_eq_iff split: ast_sort.splits)

text \<open>
  Claim C10.  The attempts to internalize any terms inside a scope of the core leave,
  once the scope is popped, exactly the state in which the scope was entered; so a mark
  set inside the scope is gone, \<^verbatim>\<open>final_check_eh\<close> returns \<^verbatim>\<open>FC_DONE\<close> again if the mark was
  not set when the scope was entered, and a mark set in an enclosing scope stays.  Inside
  the scope, after an attempt on an oversized term, \<^verbatim>\<open>final_check_eh\<close> returns \<^verbatim>\<open>FC_GIVEUP\<close>.
  The first attempt that sets the mark pushes the entry restoring the value false on the
  trail of the core.
\<close>

theorem approximation_scope_local:
  "ctx_pop_scope 1 (approximate_terms ns (ctx_push_scope s)) = Some s \<and>
   (m_bv_blast_max_size s \<noteq> INT_MAX \<and>
    (\<exists>n \<in> set ns. \<exists>arg \<in> set (app_args n @ [n]). oversized s arg) \<longrightarrow>
      final_check_eh (approximate_terms ns (ctx_push_scope s)) = FC_GIVEUP) \<and>
   (\<not> m_approximates_large_bvs s \<longrightarrow> final_check_eh s = FC_DONE) \<and>
   (\<not> m_approximates_large_bvs s \<and> m_bv_blast_max_size s \<noteq> INT_MAX \<and>
    (\<exists>arg \<in> set (app_args n @ [n]). oversized s arg) \<longrightarrow>
      approximate_term n s =
        (True, s\<lparr>ctx_trail_stack := value_trail False # ctx_trail_stack s,
                  m_approximates_large_bvs := True\<rparr>))"
proof -
  have a: "ctx_pop_scope 1 (approximate_terms ns (ctx_push_scope s)) = Some s"
    by (rule approximate_terms_round_trip)
  have b: "final_check_eh (approximate_terms ns (ctx_push_scope s)) = FC_GIVEUP"
    if "m_bv_blast_max_size s \<noteq> INT_MAX"
      and "\<exists>n \<in> set ns. \<exists>arg \<in> set (app_args n @ [n]). oversized s arg"
  proof -
    have "m_approximates_large_bvs (approximate_terms ns (ctx_push_scope s))"
      by (rule approximate_terms_flag) (use that in simp_all)
    then show ?thesis by (simp add: final_check_eh_def)
  qed
  have c: "final_check_eh s = FC_DONE" if "\<not> m_approximates_large_bvs s"
    using that by (simp add: final_check_eh_def)
  have d: "approximate_term n s =
        (True, s\<lparr>ctx_trail_stack := value_trail False # ctx_trail_stack s,
                  m_approximates_large_bvs := True\<rparr>)"
    if "\<not> m_approximates_large_bvs s" and "m_bv_blast_max_size s \<noteq> INT_MAX"
      and "\<exists>arg \<in> set (app_args n @ [n]). oversized s arg"
    using that by (simp add: approximate_term_spec set_approximates_def)
  from a b c d show ?thesis by blast
qed

text \<open>An instance: a term of width 16 under the maximum 8, in a scope of its own.\<close>

theorem approximation_scope_local_witness:
  "final_check_eh (init_theory_bv 8) = FC_DONE \<and>
   final_check_eh (approximate_terms [app (bv_sort 16) []] (ctx_push_scope (init_theory_bv 8)))
     = FC_GIVEUP \<and>
   ctx_pop_scope 1 (approximate_terms [app (bv_sort 16) []] (ctx_push_scope (init_theory_bv 8)))
     = Some (init_theory_bv 8)"
proof -
  have h: "\<not> m_approximates_large_bvs (init_theory_bv 8)"
    "m_bv_blast_max_size (init_theory_bv 8) \<noteq> INT_MAX"
    "\<exists>n \<in> set [app (bv_sort 16) []]. \<exists>arg \<in> set (app_args n @ [n]). oversized (init_theory_bv 8) arg"
    by (simp_all add: init_theory_bv_def INT_MAX_def oversized_def)
  from approximation_scope_local [of "[app (bv_sort 16) []]" "init_theory_bv 8"] h
  show ?thesis by blast
qed

section \<open>The union-find structure\<close>

text \<open>
  Modelled from the spec: the class template \<^verbatim>\<open>union_find\<close> behind \<^verbatim>\<open>m_find\<close> is absent from
  the sources.  It is ``a standard union-find forest over theory variables'' with a
  parent pointer per variable, ``a variable is a root when it points to itself'', kept
  without path compression so that a merge can be undone, with the size of each class at
  its root and a circular \<^verbatim>\<open>next\<close> list through each class.  The search for the root
  follows the parent pointers; it does not return on a cycle of parent pointers, and a
  pointer outside the vector is \<open>None\<close>.
\<close>

partial_function (option) uf_find_loop :: "nat list \<Rightarrow> nat \<Rightarrow> nat option" where
  "uf_find_loop parent v =
     (case nth_opt parent v of
        None \<Rightarrow> None
      | Some new_v \<Rightarrow> if new_v = v then Some v else uf_find_loop parent new_v)"

declare uf_find_loop.simps [code]

definition uf_find :: "theory_bv \<Rightarrow> theory_var \<Rightarrow> theory_var option" where
  "uf_find s v = uf_find_loop (m_find s) v"

definition uf_next :: "theory_bv \<Rightarrow> theory_var \<Rightarrow> theory_var option" where
  "uf_next s v = nth_opt (m_next s) v"

definition is_root :: "theory_bv \<Rightarrow> theory_var \<Rightarrow> bool" where
  "is_root s v = (nth_opt (m_find s) v = Some v)"

definition uf_mk_var :: "theory_bv \<Rightarrow> theory_bv" where
  "uf_mk_var s =
     (let r = length (m_find s)
      in s\<lparr>m_find := m_find s @ [r], m_size := m_size s @ [1], m_next := m_next s @ [r],
            m_trail_stack := mk_var_trail # m_trail_stack s\<rparr>)"

section \<open>Assignments by the plugin\<close>

text \<open>
  Modelled from the spec: \<^verbatim>\<open>context::assign\<close>, \<^verbatim>\<open>context::set_conflict\<close> and
  \<^verbatim>\<open>context::inconsistent\<close> are absent from the sources: ``\<^verbatim>\<open>assign(literal, justification)\<close> /
  \<^verbatim>\<open>set_conflict(justification)\<close>: drives the core's assignment/conflict machinery''.  An
  unassigned literal becomes true at once; a literal that is already true stays; a
  literal that is already false is a contradiction, which the core reports as a
  conflict.  The core keeps the first conflict.
\<close>

definition inconsistent :: "theory_bv \<Rightarrow> bool" where
  "inconsistent s = (ctx_conflict s \<noteq> None)"

definition set_conflict :: "justification \<Rightarrow> theory_bv \<Rightarrow> theory_bv" where
  "set_conflict js s = (if inconsistent s then s else s\<lparr>ctx_conflict := Some js\<rparr>)"

definition ctx_assign :: "literal \<Rightarrow> justification \<Rightarrow> theory_bv \<Rightarrow> theory_bv" where
  "ctx_assign l js s =
     (case get_assignment (ctx_assignment s) l of
        l_false \<Rightarrow> set_conflict js s
      | l_undef \<Rightarrow>
          s\<lparr>ctx_assignment := (ctx_assignment s)(var l := (if sign l then l_false else l_true))\<rparr>
      | l_true \<Rightarrow> s)"

section \<open>The watch position\<close>

text \<open>
  One \<^verbatim>\<open>for\<close> loop of \<^verbatim>\<open>theory_bv::find_wpos\<close>: it moves \<open>wpos\<close> up to \<open>lim\<close> and stops at an
  unassigned bit.  The result is \<open>Some (Some wpos)\<close> when it stops there, \<open>Some None\<close> when
  it reaches \<open>lim\<close>, and \<open>None\<close> when it reads outside the bits.
\<close>

function find_wpos_loop ::
  "(bool_var \<Rightarrow> lbool) \<Rightarrow> literal list \<Rightarrow> nat \<Rightarrow> nat \<Rightarrow> nat option option" where
  "find_wpos_loop asg bits wpos lim =
     (if wpos < lim then
        (case nth_opt bits wpos of
           None \<Rightarrow> None
         | Some l \<Rightarrow>
             if get_assignment asg l = l_undef then Some (Some wpos)
             else find_wpos_loop asg bits (wpos + 1) lim)
      else Some None)"
  by pat_completeness auto
termination
  by (relation "measure (\<lambda>(asg, bits, wpos, lim). lim - wpos)") auto

declare find_wpos_loop.simps [simp del]

text \<open>
  \<^verbatim>\<open>theory_bv::find_wpos(v)\<close>.  The variable \<open>wpos\<close> of the source is a reference to
  \<^verbatim>\<open>m_wpos[v]\<close>: after both loops have run to their ends it holds its initial value again.
\<close>

definition find_wpos :: "theory_var \<Rightarrow> theory_bv \<Rightarrow> theory_bv option" where
  "find_wpos v s =
     do {
       bits \<leftarrow> nth_opt (m_bits s) v;
       init \<leftarrow> nth_opt (m_wpos s) v;
       r1 \<leftarrow> find_wpos_loop (ctx_assignment s) bits init (length bits);
       case r1 of
         Some wpos \<Rightarrow> Some (s\<lparr>m_wpos := (m_wpos s)[v := wpos]\<rparr>)
       | None \<Rightarrow>
           do {
             r2 \<leftarrow> find_wpos_loop (ctx_assignment s) bits 0 init;
             case r2 of
               Some wpos \<Rightarrow> Some (s\<lparr>m_wpos := (m_wpos s)[v := wpos]\<rparr>)
             | None \<Rightarrow> fixed_var_eh v (s\<lparr>m_wpos := (m_wpos s)[v := init]\<rparr>)
           }
     }"

section \<open>Propagation of bits\<close>

text \<open>
  The \<^verbatim>\<open>while (curr)\<close> loop at the end of \<^verbatim>\<open>theory_bv::assign_bit\<close>, over the occurrences of
  the Boolean variable that was assigned.
\<close>

fun assign_bit_occs ::
  "(theory_var \<times> nat) list \<Rightarrow> bool \<Rightarrow> theory_var \<Rightarrow> nat \<Rightarrow> theory_bv \<Rightarrow> theory_bv option" where
  "assign_bit_occs [] propagate_eqc v2 idx s = Some s"
| "assign_bit_occs ((curr_var, curr_idx) # occs) propagate_eqc v2 idx s =
     do {
       push \<leftarrow>
         (if propagate_eqc then Some True
          else do {
            f1 \<leftarrow> uf_find s curr_var;
            f2 \<leftarrow> uf_find s v2;
            Some (f1 \<noteq> f2 \<or> curr_idx \<noteq> idx)
          });
       assign_bit_occs occs propagate_eqc v2 idx
         (if push then s\<lparr>m_prop_queue := m_prop_queue s @ [(curr_var, curr_idx)]\<rparr> else s)
     }"

text \<open>\<^verbatim>\<open>theory_bv::assign_bit\<close>.\<close>

definition assign_bit ::
  "literal \<Rightarrow> theory_var \<Rightarrow> theory_var \<Rightarrow> nat \<Rightarrow> literal \<Rightarrow> bool \<Rightarrow> theory_bv \<Rightarrow> theory_bv option" where
  "assign_bit consequent v1 v2 idx antecedent propagate_eqc s =
     (if consequent = false_literal
      then Some (set_conflict (bit_eq_justification v1 v2 consequent antecedent) s)
      else
        do {
          let s1 = ctx_assign consequent (bit_eq_justification v1 v2 consequent antecedent) s;
          wpos \<leftarrow> nth_opt (m_wpos s1) v2;
          s2 \<leftarrow> (if wpos = idx then find_wpos v2 s1 else Some s1);
          occs \<leftarrow> (case m_bool_var2atom s2 (var consequent) of
                     Some (bit_atom occs) \<Rightarrow> Some occs
                   | _ \<Rightarrow> None);
          assign_bit_occs occs propagate_eqc v2 idx s2
        })"

text \<open>
  The inner \<^verbatim>\<open>while (v2 != v)\<close> loop of \<^verbatim>\<open>theory_bv::propagate_bits\<close> around the class of
  \<open>v\<close>.  The Boolean of the result says that the loop left \<^verbatim>\<open>propagate_bits\<close> through the
  \<^verbatim>\<open>return\<close> after an inconsistency.
\<close>

partial_function (option) propagate_bits_class ::
  "theory_var \<Rightarrow> nat \<Rightarrow> literal \<Rightarrow> lbool \<Rightarrow> theory_var \<Rightarrow> theory_bv \<Rightarrow> (bool \<times> theory_bv) option" where
  "propagate_bits_class v idx bit_v val v2 s =
     (if v2 \<noteq> v then
        do {
          bits2 \<leftarrow> nth_opt (m_bits s) v2;
          bit_v2 \<leftarrow> nth_opt bits2 idx;
          let val2 = get_assignment (ctx_assignment s) bit_v2;
          if val \<noteq> val2 then
            do {
              let antecedent = (if val = l_false then neg bit_v else bit_v);
              let consequent = (if val = l_false then neg bit_v2 else bit_v2);
              s1 \<leftarrow> assign_bit consequent v v2 idx antecedent False s;
              if inconsistent s1 then Some (True, s1)
              else
                do {
                  v2' \<leftarrow> uf_next s1 v2;
                  propagate_bits_class v idx bit_v val v2' s1
                }
            }
          else
            do {
              v2' \<leftarrow> uf_next s v2;
              propagate_bits_class v idx bit_v val v2' s
            }
        }
      else Some (False, s))"

declare propagate_bits_class.simps [code]

text \<open>
  The outer \<^verbatim>\<open>for\<close> loop of \<^verbatim>\<open>theory_bv::propagate_bits\<close> over the queue, which grows while
  the loop runs, and the reset of the queue after the loop.
\<close>

partial_function (option) propagate_bits_loop :: "nat \<Rightarrow> theory_bv \<Rightarrow> theory_bv option" where
  "propagate_bits_loop i s =
     (if i < length (m_prop_queue s) then
        do {
          let v = fst (m_prop_queue s ! i);
          let idx = snd (m_prop_queue s ! i);
          wpos \<leftarrow> nth_opt (m_wpos s) v;
          s1 \<leftarrow> (if wpos = idx then find_wpos v s else Some s);
          bits \<leftarrow> nth_opt (m_bits s1) v;
          bit_v \<leftarrow> nth_opt bits idx;
          let val = get_assignment (ctx_assignment s1) bit_v;
          v2 \<leftarrow> uf_next s1 v;
          r \<leftarrow> propagate_bits_class v idx bit_v val v2 s1;
          if fst r then Some (snd r) else propagate_bits_loop (i + 1) (snd r)
        }
      else Some (s\<lparr>m_prop_queue := []\<rparr>))"

declare propagate_bits_loop.simps [code]

definition propagate_bits :: "theory_bv \<Rightarrow> theory_bv option" where
  "propagate_bits s = propagate_bits_loop 0 s"


section \<open>Merging equivalence classes\<close>

text \<open>
  The table \<^verbatim>\<open>m_merge_aux\<close> of \<^verbatim>\<open>theory_bv::merge_zero_one_bits\<close>, filled from the summary of
  the surviving root: for a polarity and a bit index, the owner of the last entry with
  them, if any.  The source keeps the table between calls and resets it before it
  returns; the model starts from an empty table at every call.
\<close>

fun merge_aux_save ::
  "zero_one_bit list \<Rightarrow> (bool \<Rightarrow> nat \<Rightarrow> theory_var option) \<Rightarrow> (bool \<Rightarrow> nat \<Rightarrow> theory_var option)" where
  "merge_aux_save [] aux = aux"
| "merge_aux_save (e # bits1) aux =
     merge_aux_save bits1 (aux(m_is_true e := (aux (m_is_true e))(m_idx e \<mapsto> m_owner e)))"

text \<open>
  The loop of \<^verbatim>\<open>merge_zero_one_bits\<close> over the summary of the other root: a complementary
  entry ends it with a disequality axiom and the result false; an entry that the table
  does not have is copied to the summary of \<open>r1\<close>.
\<close>

fun merge_zero_one_bits_loop ::
  "zero_one_bit list \<Rightarrow> (bool \<Rightarrow> nat \<Rightarrow> theory_var option) \<Rightarrow> theory_var \<Rightarrow> theory_bv \<Rightarrow>
   bool \<times> theory_bv" where
  "merge_zero_one_bits_loop [] aux r1 s = (True, s)"
| "merge_zero_one_bits_loop (e # bits2) aux r1 s =
     (case aux (\<not> m_is_true e) (m_idx e) of
        Some v1 \<Rightarrow> (False, mk_new_diseq_axiom v1 (m_owner e) (m_idx e) s)
      | None \<Rightarrow>
          merge_zero_one_bits_loop bits2 aux r1
            (if aux (m_is_true e) (m_idx e) = None
             then s\<lparr>m_zero_one_bits := (m_zero_one_bits s)[r1 := m_zero_one_bits s ! r1 @ [e]]\<rparr>
             else s))"

definition merge_zero_one_bits :: "theory_var \<Rightarrow> theory_var \<Rightarrow> theory_bv \<Rightarrow> (bool \<times> theory_bv) option" where
  "merge_zero_one_bits r1 r2 s =
     do {
       bits2 \<leftarrow> nth_opt (m_zero_one_bits s) r2;
       if bits2 = [] then Some (True, s)
       else
         do {
           bits1 \<leftarrow> nth_opt (m_zero_one_bits s) r1;
           bv_size \<leftarrow> get_bv_size s r1;
           Some (merge_zero_one_bits_loop bits2 (merge_aux_save bits1 (\<lambda>b i. None)) r1 s)
         }
     }"

text \<open>
  One pass of the \<^verbatim>\<open>for\<close> loop of \<^verbatim>\<open>theory_bv::merge_eh\<close> over the bit indices.  The result
  is the flag of a \<^verbatim>\<open>return\<close> after an inconsistency, the variable \<open>changed\<close> and the state.
  The point that the source marks \<^verbatim>\<open>UNREACHABLE\<close> is \<open>None\<close>.
\<close>

function merge_eh_pass ::
  "theory_var \<Rightarrow> theory_var \<Rightarrow> nat \<Rightarrow> nat \<Rightarrow> bool \<Rightarrow> theory_bv \<Rightarrow> (bool \<times> bool \<times> theory_bv) option" where
  "merge_eh_pass v1 v2 sz idx changed s =
     (if idx < sz then
        do {
          bits1 \<leftarrow> nth_opt (m_bits s) v1;
          bits2 \<leftarrow> nth_opt (m_bits s) v2;
          bit1 \<leftarrow> nth_opt bits1 idx;
          bit2 \<leftarrow> nth_opt bits2 idx;
          let val1 = get_assignment (ctx_assignment s) bit1;
          let val2 = get_assignment (ctx_assignment s) bit2;
          if val1 = val2 then merge_eh_pass v1 v2 sz (idx + 1) changed s
          else
            do {
              s1 \<leftarrow>
                (if val1 \<noteq> l_undef then
                   assign_bit (if val1 = l_false then neg bit2 else bit2) v1 v2 idx
                     (if val1 = l_false then neg bit1 else bit1) True s
                 else if val2 \<noteq> l_undef then
                   assign_bit (if val2 = l_false then neg bit1 else bit1) v2 v1 idx
                     (if val2 = l_false then neg bit2 else bit2) True s
                 else Some s);
              if inconsistent s1 then Some (True, True, s1)
              else if val1 \<noteq> l_undef \<and> val2 \<noteq> l_undef \<and> val1 \<noteq> val2 then None
              else merge_eh_pass v1 v2 sz (idx + 1) True s1
            }
        }
      else Some (False, changed, s))"
  by pat_completeness auto
termination
  by (relation "measure (\<lambda>(v1, v2, sz, idx, changed, s). sz - idx)") auto

declare merge_eh_pass.simps [simp del]

text \<open>The \<^verbatim>\<open>do ... while (changed)\<close> loop of \<^verbatim>\<open>merge_eh\<close>.\<close>

partial_function (option) merge_eh_loop ::
  "theory_var \<Rightarrow> theory_var \<Rightarrow> nat \<Rightarrow> theory_bv \<Rightarrow> (bool \<times> theory_bv) option" where
  "merge_eh_loop v1 v2 sz s =
     do {
       r \<leftarrow> merge_eh_pass v1 v2 sz 0 False s;
       if fst r then Some (True, snd (snd r))
       else if fst (snd r) then merge_eh_loop v1 v2 sz (snd (snd r))
       else Some (False, snd (snd r))
     }"

declare merge_eh_loop.simps [code]

text \<open>\<^verbatim>\<open>theory_bv::merge_eh(r1, r2, v1, v2)\<close>.\<close>

definition merge_eh ::
  "theory_var \<Rightarrow> theory_var \<Rightarrow> theory_var \<Rightarrow> theory_var \<Rightarrow> theory_bv \<Rightarrow> theory_bv option" where
  "merge_eh r1 r2 v1 v2 s =
     do {
       z \<leftarrow> merge_zero_one_bits r1 r2 s;
       if \<not> fst z then Some (snd z)
       else
         do {
           let s1 = (snd z)\<lparr>m_prop_queue := []\<rparr>;
           bits1 \<leftarrow> nth_opt (m_bits s1) v1;
           bits2 \<leftarrow> nth_opt (m_bits s1) v2;
           r \<leftarrow> merge_eh_loop v1 v2 (length bits1) s1;
           if fst r then Some (snd r) else propagate_bits (snd r)
         }
     }"

text \<open>
  Modelled from the spec: \<^verbatim>\<open>union_find::merge\<close>, absent from the sources.  The roots of the
  two variables are found; the root of the smaller class is linked below the other,
  which is the surviving root; the sizes are added, the two circular lists are spliced,
  the undo object is pushed, and the plugin is told through \<^verbatim>\<open>merge_eh\<close>, with the
  surviving root as its first argument, after the classes are one.
\<close>

definition uf_merge :: "theory_var \<Rightarrow> theory_var \<Rightarrow> theory_bv \<Rightarrow> theory_bv option" where
  "uf_merge v1 v2 s =
     do {
       f1 \<leftarrow> uf_find s v1;
       f2 \<leftarrow> uf_find s v2;
       if f1 = f2 then Some s
       else
         do {
           sz1 \<leftarrow> nth_opt (m_size s) f1;
           sz2 \<leftarrow> nth_opt (m_size s) f2;
           let r1 = (if sz1 > sz2 then f2 else f1);
           let r2 = (if sz1 > sz2 then f1 else f2);
           n1 \<leftarrow> nth_opt (m_next s) r1;
           n2 \<leftarrow> nth_opt (m_next s) r2;
           merge_eh r2 r1 v2 v1
             (s\<lparr>m_find := (m_find s)[r1 := r2],
                m_size := (m_size s)[r2 := sz1 + sz2],
                m_next := (m_next s)[r1 := n2, r2 := n1],
                m_trail_stack := merge_trail r1 # m_trail_stack s\<rparr>)
         }
     }"

text \<open>\<^verbatim>\<open>theory_bv::new_eq_eh(v1, v2)\<close>.\<close>

definition new_eq_eh :: "theory_var \<Rightarrow> theory_var \<Rightarrow> theory_bv \<Rightarrow> theory_bv option" where
  "new_eq_eh v1 v2 s = uf_merge v1 v2 s"

text \<open>
  \<^verbatim>\<open>theory_bv::mk_var(n)\<close>, with \<^verbatim>\<open>theory::mk_var\<close> of the base class, which appends the enode
  to \<^verbatim>\<open>m_var2enode\<close>.  The new variable is the former length of \<^verbatim>\<open>m_var2enode\<close>.
\<close>

definition mk_var :: "enode \<Rightarrow> theory_bv \<Rightarrow> theory_bv" where
  "mk_var n s =
     (let s1 = uf_mk_var (s\<lparr>m_var2enode := m_var2enode s @ [n]\<rparr>)
      in s1\<lparr>m_bits := m_bits s1 @ [[]], m_wpos := m_wpos s1 @ [0],
             m_zero_one_bits := m_zero_one_bits s1 @ [[]]\<rparr>)"

section \<open>Backtracking\<close>

text \<open>
  The \<^verbatim>\<open>while (j > 0)\<close> loop of \<^verbatim>\<open>theory_bv::unmerge_eh\<close>: the result is the summary after the
  \<^verbatim>\<open>shrink\<close>.
\<close>

fun unmerge_eh_loop ::
  "theory_bv \<Rightarrow> theory_var \<Rightarrow> zero_one_bit list \<Rightarrow> nat \<Rightarrow> zero_one_bit list option" where
  "unmerge_eh_loop s v1 bits 0 = Some []"
| "unmerge_eh_loop s v1 bits (Suc j) =
     do {
       f \<leftarrow> uf_find s (m_owner (bits ! j));
       if f = v1 then Some (take (Suc j) bits) else unmerge_eh_loop s v1 bits j
     }"

definition unmerge_eh :: "theory_var \<Rightarrow> theory_var \<Rightarrow> theory_bv \<Rightarrow> theory_bv option" where
  "unmerge_eh v1 v2 s =
     do {
       bits \<leftarrow> nth_opt (m_zero_one_bits s) v1;
       if bits = [] then Some s
       else
         do {
           bits' \<leftarrow> unmerge_eh_loop s v1 bits (length bits);
           Some (s\<lparr>m_zero_one_bits := (m_zero_one_bits s)[v1 := bits']\<rparr>)
         }
     }"

text \<open>
  Modelled from the spec: \<^verbatim>\<open>union_find::unmerge\<close>, absent from the sources, ``reversing
  exactly one merge'': the link of \<open>r1\<close> is removed, its size is taken from its former
  root, the circular lists are split again, and the plugin is told through
  \<^verbatim>\<open>unmerge_eh\<close>.
\<close>

definition uf_unmerge :: "theory_var \<Rightarrow> theory_bv \<Rightarrow> theory_bv option" where
  "uf_unmerge r1 s =
     do {
       r2 \<leftarrow> nth_opt (m_find s) r1;
       sz1 \<leftarrow> nth_opt (m_size s) r1;
       sz2 \<leftarrow> nth_opt (m_size s) r2;
       n1 \<leftarrow> nth_opt (m_next s) r1;
       n2 \<leftarrow> nth_opt (m_next s) r2;
       unmerge_eh r2 r1
         (s\<lparr>m_size := (m_size s)[r2 := sz2 - sz1],
            m_find := (m_find s)[r1 := r1],
            m_next := (m_next s)[r1 := n2, r2 := n1]\<rparr>)
     }"

text \<open>
  The method \<^verbatim>\<open>undo\<close> of the undo objects.  \<^verbatim>\<open>mk_atom_trail\<close> destroys the atom of its
  variable and erases it from the table; \<^verbatim>\<open>add_var_pos_trail\<close> drops the head of the
  occurrence list of its atom.  The undo objects of \<^verbatim>\<open>m_find\<close> are modelled from the spec:
  one removes the last variable of the union-find structure, one unmerges.
\<close>

fun bv_undo :: "bv_trail \<Rightarrow> theory_bv \<Rightarrow> theory_bv option" where
  "bv_undo (mk_atom_trail v) s =
     (case m_bool_var2atom s v of
        None \<Rightarrow> None
      | Some a \<Rightarrow> Some (s\<lparr>m_bool_var2atom := (m_bool_var2atom s)(v := None)\<rparr>))"
| "bv_undo (add_var_pos_trail v) s =
     (case m_bool_var2atom s v of
        Some (bit_atom (occ # occs)) \<Rightarrow>
          Some (s\<lparr>m_bool_var2atom := (m_bool_var2atom s)(v \<mapsto> bit_atom occs)\<rparr>)
      | _ \<Rightarrow> None)"
| "bv_undo mk_var_trail s =
     (if m_find s = [] \<or> m_size s = [] \<or> m_next s = [] then None
      else Some (s\<lparr>m_find := butlast (m_find s), m_size := butlast (m_size s),
                   m_next := butlast (m_next s)\<rparr>))"
| "bv_undo (merge_trail r1) s = uf_unmerge r1 s"

text \<open>
  Modelled from the spec: the class \<^verbatim>\<open>trail_stack\<close> behind \<^verbatim>\<open>m_trail_stack\<close> is absent from the
  sources; ``mutations to vectors/tables are undone via an explicit LIFO undo trail''.
  Entering a scope remembers the height of the trail; leaving \<open>num_scopes\<close> scopes undoes
  the entries above the height that the outermost of them remembered, the most recent
  entry first, and forgets the scopes.  The head of \<^verbatim>\<open>m_trail_stack\<close> is the most recent
  entry.
\<close>

fun undo_entries :: "bv_trail list \<Rightarrow> theory_bv \<Rightarrow> theory_bv option" where
  "undo_entries [] s = Some s"
| "undo_entries (e # es) s = bv_undo e s \<bind> undo_entries es"

definition undo_trail_stack :: "nat \<Rightarrow> theory_bv \<Rightarrow> theory_bv option" where
  "undo_trail_stack old_size s =
     do {
       let n = length (m_trail_stack s) - old_size;
       s1 \<leftarrow> undo_entries (take n (m_trail_stack s)) s;
       Some (s1\<lparr>m_trail_stack := drop n (m_trail_stack s)\<rparr>)
     }"

definition trail_push_scope :: "theory_bv \<Rightarrow> theory_bv" where
  "trail_push_scope s = s\<lparr>m_scopes := m_scopes s @ [length (m_trail_stack s)]\<rparr>"

definition trail_pop_scope :: "nat \<Rightarrow> theory_bv \<Rightarrow> theory_bv option" where
  "trail_pop_scope num_scopes s =
     (if num_scopes = 0 then Some s
      else if num_scopes \<le> length (m_scopes s) then
        do {
          let new_lvl = length (m_scopes s) - num_scopes;
          s1 \<leftarrow> undo_trail_stack (m_scopes s ! new_lvl) s;
          Some (s1\<lparr>m_scopes := take new_lvl (m_scopes s)\<rparr>)
        }
      else None)"

text \<open>
  \<^verbatim>\<open>theory_bv::push_scope_eh\<close> and \<^verbatim>\<open>theory_bv::pop_scope_eh\<close>, with the methods of the base
  class \<^verbatim>\<open>theory\<close> that they call, which keep the number of variables of each scope in
  \<^verbatim>\<open>m_var2enode_lim\<close>.
\<close>

definition push_scope_eh :: "theory_bv \<Rightarrow> theory_bv" where
  "push_scope_eh s =
     trail_push_scope (s\<lparr>m_var2enode_lim := m_var2enode_lim s @ [length (m_var2enode s)]\<rparr>)"

definition pop_scope_eh :: "nat \<Rightarrow> theory_bv \<Rightarrow> theory_bv option" where
  "pop_scope_eh num_scopes s =
     do {
       s1 \<leftarrow> trail_pop_scope num_scopes s;
       if num_scopes \<le> length (m_var2enode_lim s1) then
         do {
           let new_lvl = length (m_var2enode_lim s1) - num_scopes;
           num_old_vars \<leftarrow> nth_opt (m_var2enode_lim s1) new_lvl;
           Some (s1\<lparr>m_bits := take num_old_vars (m_bits s1),
                    m_wpos := take num_old_vars (m_wpos s1),
                    m_zero_one_bits := take num_old_vars (m_zero_one_bits s1),
                    m_var2enode := take num_old_vars (m_var2enode s1),
                    m_var2enode_lim := take new_lvl (m_var2enode_lim s1)\<rparr>)
         }
       else None
     }"

section \<open>Properties of the union-find structure\<close>

lemmas uf_find_loop_induct =
  uf_find_loop.raw_induct [rotated 1, consumes 1, case_names step]

lemma uf_find_loop_root:
  "uf_find_loop pf v = Some r \<Longrightarrow> r < length pf \<and> pf ! r = r"
proof (induction rule: uf_find_loop_induct)
  case (step f pf v r)
  from step.hyps show ?case
    by (auto simp: nth_opt_def split: option.splits if_splits dest: step.IH)
qed

lemma uf_find_loop_in_range:
  "uf_find_loop pf v = Some r \<Longrightarrow> v < length pf"
  by (subst (asm) uf_find_loop.simps) (auto simp: nth_opt_def split: if_splits)

lemma uf_find_loop_self:
  "v < length pf \<Longrightarrow> pf ! v = v \<Longrightarrow> uf_find_loop pf v = Some v"
  by (subst uf_find_loop.simps) (simp add: nth_opt_def)








section \<open>What the propagation leaves alone\<close>

text \<open>
  What the propagation leaves alone: the bit arrays, the atom table, the union-find
  structure, the trail and the scopes, and the variables of the plugin.
\<close>

definition frame :: "theory_bv \<Rightarrow> theory_bv \<Rightarrow> bool" where
  "frame s s' \<longleftrightarrow>
     m_bits s' = m_bits s \<and> m_bool_var2atom s' = m_bool_var2atom s \<and>
     m_find s' = m_find s \<and> m_size s' = m_size s \<and> m_next s' = m_next s \<and>
     m_trail_stack s' = m_trail_stack s \<and> m_scopes s' = m_scopes s \<and>
     m_var2enode s' = m_var2enode s \<and> m_var2enode_lim s' = m_var2enode_lim s \<and>
     length (m_zero_one_bits s') = length (m_zero_one_bits s) \<and>
     length (m_wpos s') = length (m_wpos s) \<and>
     ctx_var_theory s' = ctx_var_theory s"

lemma frame_refl [simp]: "frame s s"
  by (simp add: frame_def)

lemma frame_trans: "frame s s1 \<Longrightarrow> frame s1 s2 \<Longrightarrow> frame s s2"
  by (simp add: frame_def)

lemma frame_fixed_var_eh: "fixed_var_eh v s = Some s' \<Longrightarrow> frame s s'"
  by (auto simp: fixed_var_eh_def frame_def assign_eq_def Let_def
      split: option.splits if_splits prod.splits Option.bind_splits)

lemma frame_find_wpos: "find_wpos v s = Some s' \<Longrightarrow> frame s s'"
  by (auto simp: find_wpos_def split: option.splits Option.bind_splits
      dest!: frame_fixed_var_eh) (auto simp: frame_def)

lemma frame_set_conflict [simp]: "frame s (set_conflict js s)"
  by (simp add: set_conflict_def frame_def)

lemma frame_ctx_assign [simp]: "frame s (ctx_assign l js s)"
  by (simp add: ctx_assign_def frame_def set_conflict_def split: lbool.splits)

lemma frame_assign_bit_occs:
  "assign_bit_occs occs p v2 idx s = Some s' \<Longrightarrow> frame s s'"
proof (induction occs arbitrary: s)
  case Nil
  then show ?case by simp
next
  case (Cons occ occs)
  obtain cv ci where occ: "occ = (cv, ci)" by (cases occ)
  from Cons.prems obtain push where
    "assign_bit_occs occs p v2 idx
       (if push then s\<lparr>m_prop_queue := m_prop_queue s @ [(cv, ci)]\<rparr> else s) = Some s'"
    by (auto simp: occ split: Option.bind_splits)
  from Cons.IH [OF this] show ?case
    by (auto simp: frame_def split: if_splits)
qed

lemma frame_assign_bit:
  "assign_bit c v1 v2 idx a p s = Some s' \<Longrightarrow> frame s s'"
  unfolding assign_bit_def
  by (auto simp: Let_def split: if_splits Option.bind_splits option.splits atom.splits
      dest!: frame_assign_bit_occs frame_find_wpos)
    (meson frame_trans frame_ctx_assign)+

lemmas propagate_bits_class_induct =
  propagate_bits_class.raw_induct [rotated 1, consumes 1, case_names step]
lemmas propagate_bits_loop_induct =
  propagate_bits_loop.raw_induct [rotated 1, consumes 1, case_names step]
lemmas merge_eh_loop_induct =
  merge_eh_loop.raw_induct [rotated 1, consumes 1, case_names step]

lemma frame_propagate_bits_class:
  "propagate_bits_class v idx b val v2 s = Some r \<Longrightarrow> frame s (snd r)"
proof (induction rule: propagate_bits_class_induct)
  case (step f v idx b val v2 s r)
  from step.hyps show ?case
    by (auto simp: Let_def uf_next_def split: if_splits Option.bind_splits
        dest!: frame_assign_bit step.IH intro: frame_trans)
qed

lemma frame_propagate_bits_loop:
  "propagate_bits_loop i s = Some s' \<Longrightarrow> frame s s'"
proof (induction rule: propagate_bits_loop_induct)
  case (step f i s s')
  from step.hyps show ?case
    by (auto simp: Let_def uf_next_def split: if_splits Option.bind_splits
        dest!: frame_propagate_bits_class frame_find_wpos step.IH intro: frame_trans)
      (auto simp: frame_def)
qed

lemma frame_propagate_bits: "propagate_bits s = Some s' \<Longrightarrow> frame s s'"
  by (simp add: propagate_bits_def frame_propagate_bits_loop)


lemma frame_merge_zero_one_bits_loop:
  "merge_zero_one_bits_loop bits2 aux r1 s = (ok, s') \<Longrightarrow> frame s s'"
proof (induction bits2 arbitrary: s)
  case Nil
  then show ?case by simp
next
  case (Cons e bits2)
  show ?case
  proof (cases "aux (\<not> m_is_true e) (m_idx e)")
    case None
    with Cons.prems have "merge_zero_one_bits_loop bits2 aux r1
            (if aux (m_is_true e) (m_idx e) = None
             then s\<lparr>m_zero_one_bits := (m_zero_one_bits s)[r1 := m_zero_one_bits s ! r1 @ [e]]\<rparr>
             else s) = (ok, s')" by simp
    from Cons.IH [OF this] show ?thesis
      by (auto simp: frame_def split: if_splits)
  next
    case (Some v1)
    with Cons.prems show ?thesis
      by (auto simp: frame_def mk_new_diseq_axiom_def mk_th_axiom_def)
  qed
qed

lemma frame_merge_zero_one_bits:
  "merge_zero_one_bits r1 r2 s = Some z \<Longrightarrow> frame s (snd z)"
  by (cases z)
    (auto simp: merge_zero_one_bits_def split: Option.bind_splits if_splits
      dest: frame_merge_zero_one_bits_loop)

lemma frame_merge_eh_pass:
  "merge_eh_pass v1 v2 sz idx changed s = Some r \<Longrightarrow> frame s (snd (snd r))"
proof (induction "sz - idx" arbitrary: idx changed s r)
  case 0
  then show ?case
    by (subst (asm) merge_eh_pass.simps) auto
next
  case (Suc n)
  from Suc.hyps(2) have n: "n = sz - Suc idx" "idx < sz" by simp_all
  from Suc.prems n(2) show ?case
    by (subst (asm) merge_eh_pass.simps)
      (auto simp: Let_def split: if_splits Option.bind_splits
        dest!: frame_assign_bit Suc.hyps(1) [OF n(1)] intro: frame_trans)
qed

lemma frame_merge_eh_loop:
  "merge_eh_loop v1 v2 sz s = Some r \<Longrightarrow> frame s (snd r)"
proof (induction rule: merge_eh_loop_induct)
  case (step f v1 v2 sz s r)
  from step.hyps show ?case
    by (auto split: if_splits Option.bind_splits
        dest!: frame_merge_eh_pass step.IH intro: frame_trans)
qed

lemma frame_merge_eh: "merge_eh r1 r2 v1 v2 s = Some s' \<Longrightarrow> frame s s'"
  unfolding merge_eh_def
  by (auto simp: Let_def split: if_splits Option.bind_splits
      dest!: frame_merge_zero_one_bits frame_merge_eh_loop frame_propagate_bits)
    (auto simp: frame_def)

section \<open>The backtracked part of the state\<close>

text \<open>
  The atom table and the union-find structure are what the undo objects change.  The
  function \<open>undo_backtracked\<close> is the effect of one undo object on them; it is total, and
  agrees with \<open>bv_undo\<close> wherever that returns.
\<close>

type_synonym backtracked = "(bool_var \<rightharpoonup> atom) \<times> nat list \<times> nat list \<times> nat list"

definition backtracked :: "theory_bv \<Rightarrow> backtracked" where
  "backtracked s = (m_bool_var2atom s, m_find s, m_size s, m_next s)"

fun undo_backtracked :: "bv_trail \<Rightarrow> backtracked \<Rightarrow> backtracked" where
  "undo_backtracked (mk_atom_trail v) (atoms, pf, sz, nx) = (atoms(v := None), pf, sz, nx)"
| "undo_backtracked (add_var_pos_trail v) (atoms, pf, sz, nx) =
     (case atoms v of
        Some (bit_atom (occ # occs)) \<Rightarrow> (atoms(v \<mapsto> bit_atom occs), pf, sz, nx)
      | _ \<Rightarrow> (atoms, pf, sz, nx))"
| "undo_backtracked mk_var_trail (atoms, pf, sz, nx) = (atoms, butlast pf, butlast sz, butlast nx)"
| "undo_backtracked (merge_trail r1) (atoms, pf, sz, nx) =
     (atoms, pf[r1 := r1], sz[pf ! r1 := sz ! (pf ! r1) - sz ! r1],
      nx[r1 := nx ! (pf ! r1), pf ! r1 := nx ! r1])"

text \<open>What an undo step leaves alone.\<close>

definition undo_frame :: "theory_bv \<Rightarrow> theory_bv \<Rightarrow> bool" where
  "undo_frame s s' \<longleftrightarrow>
     m_bits s' = m_bits s \<and> m_trail_stack s' = m_trail_stack s \<and> m_scopes s' = m_scopes s \<and>
     m_var2enode s' = m_var2enode s \<and> m_var2enode_lim s' = m_var2enode_lim s \<and>
     m_wpos s' = m_wpos s \<and> length (m_zero_one_bits s') = length (m_zero_one_bits s) \<and>
     ctx_var_theory s' = ctx_var_theory s \<and> ctx_assignment s' = ctx_assignment s"

lemma unmerge_eh_backtracked:
  "unmerge_eh v1 v2 s = Some s' \<Longrightarrow> backtracked s' = backtracked s \<and> undo_frame s s'"
  by (auto simp: unmerge_eh_def backtracked_def undo_frame_def split: Option.bind_splits if_splits)

lemma bv_undo_backtracked:
  "bv_undo e s = Some s' \<Longrightarrow>
   backtracked s' = undo_backtracked e (backtracked s) \<and> undo_frame s s'"
proof (cases e)
  case (merge_trail r1)
  assume "bv_undo e s = Some s'"
  with merge_trail show ?thesis
    by (auto simp: uf_unmerge_def backtracked_def undo_frame_def nth_opt_def
        split: Option.bind_splits if_splits dest!: unmerge_eh_backtracked)
qed (auto simp: backtracked_def undo_frame_def split: option.splits atom.splits list.splits if_splits)

lemma undo_frame_refl [simp]: "undo_frame s s"
  by (simp add: undo_frame_def)

lemma undo_frame_trans: "undo_frame s s1 \<Longrightarrow> undo_frame s1 s2 \<Longrightarrow> undo_frame s s2"
  by (simp add: undo_frame_def)

lemma undo_entries_backtracked:
  "undo_entries es s = Some s' \<Longrightarrow>
   backtracked s' = fold undo_backtracked es (backtracked s) \<and> undo_frame s s'"
proof (induction es arbitrary: s)
  case Nil
  then show ?case by simp
next
  case (Cons e es)
  from Cons.prems obtain s1 where 1: "bv_undo e s = Some s1" and 2: "undo_entries es s1 = Some s'"
    by (auto split: Option.bind_splits)
  from bv_undo_backtracked [OF 1] Cons.IH [OF 2] show ?case
    by (auto intro: undo_frame_trans)
qed

text \<open>
  What the undoing of a merge needs of the union-find structure: the variable is linked
  below another one, which is a root.  A path of undo objects is ready when each of them
  is, in the state that the ones before it leave.
\<close>

fun undo_ready :: "bv_trail \<Rightarrow> backtracked \<Rightarrow> bool" where
  "undo_ready (merge_trail r1) (atoms, pf, sz, nx) =
     (r1 < length pf \<and> pf ! r1 < length pf \<and> pf ! (pf ! r1) = pf ! r1 \<and> pf ! r1 \<noteq> r1)"
| "undo_ready e R = True"

fun undo_path :: "bv_trail list \<Rightarrow> backtracked \<Rightarrow> bool" where
  "undo_path [] R = True"
| "undo_path (e # es) R = (undo_ready e R \<and> undo_path es (undo_backtracked e R))"

lemma undo_path_append:
  "undo_path (es1 @ es2) R \<longleftrightarrow> undo_path es1 R \<and> undo_path es2 (fold undo_backtracked es1 R)"
  by (induction es1 arbitrary: R) auto

section \<open>Operations between two scope boundaries\<close>

text \<open>
  The operations of the plugin that change the backtracked part of the state: the
  creation of a variable, \<^verbatim>\<open>add_bit\<close>, and a merge through \<^verbatim>\<open>new_eq_eh\<close>; and a sequence of
  them, which stops at the first that does not return.
\<close>

datatype bv_op = Mk_var enode | Add_bit theory_var literal | New_eq theory_var theory_var

fun apply_op :: "bv_op \<Rightarrow> theory_bv \<Rightarrow> theory_bv option" where
  "apply_op (Mk_var n) s = Some (mk_var n s)"
| "apply_op (Add_bit v l) s = add_bit v l s"
| "apply_op (New_eq v1 v2) s = new_eq_eh v1 v2 s"

fun run_ops :: "bv_op list \<Rightarrow> theory_bv \<Rightarrow> theory_bv option" where
  "run_ops [] s = Some s"
| "run_ops (op # ops) s = apply_op op s \<bind> run_ops ops"

text \<open>
  \<^verbatim>\<open>add_bit\<close> makes a new atom for a Boolean variable that the plugin does not own yet; the
  table has no atom for such a variable.
\<close>

definition unowned_no_atom :: "theory_bv \<Rightarrow> bool" where
  "unowned_no_atom s \<longleftrightarrow> (\<forall>b. \<not> ctx_var_theory s b \<longrightarrow> m_bool_var2atom s b = None)"

text \<open>
  The effect of an operation between two scope boundaries: it pushes entries on the
  trail whose undoing gives back the atom table and the union-find structure; it leaves
  the scopes alone; it adds variables and changes the bits of no variable but its target.
\<close>

definition op_effect :: "theory_bv \<Rightarrow> theory_bv \<Rightarrow> bool" where
  "op_effect s s' \<longleftrightarrow>
     (\<exists>es. m_trail_stack s' = es @ m_trail_stack s \<and>
           fold undo_backtracked es (backtracked s') = backtracked s \<and>
           undo_path es (backtracked s')) \<and>
     m_scopes s' = m_scopes s \<and> m_var2enode_lim s' = m_var2enode_lim s"

lemma op_effect_refl [simp]: "op_effect s s"
  by (simp add: op_effect_def)

lemma op_effect_trans:
  assumes "op_effect s s1" and "op_effect s1 s2"
  shows "op_effect s s2"
proof -
  from assms(1) obtain es1 where 1: "m_trail_stack s1 = es1 @ m_trail_stack s"
    "fold undo_backtracked es1 (backtracked s1) = backtracked s"
    "undo_path es1 (backtracked s1)"
    by (auto simp: op_effect_def)
  from assms(2) obtain es2 where 2: "m_trail_stack s2 = es2 @ m_trail_stack s1"
    "fold undo_backtracked es2 (backtracked s2) = backtracked s1"
    "undo_path es2 (backtracked s2)"
    by (auto simp: op_effect_def)
  from 1 2 have "m_trail_stack s2 = (es2 @ es1) @ m_trail_stack s"
    "fold undo_backtracked (es2 @ es1) (backtracked s2) = backtracked s"
    "undo_path (es2 @ es1) (backtracked s2)"
    by (simp_all add: undo_path_append)
  then have "\<exists>es. m_trail_stack s2 = es @ m_trail_stack s \<and>
           fold undo_backtracked es (backtracked s2) = backtracked s \<and>
           undo_path es (backtracked s2)"
    by blast
  with assms show ?thesis
    by (simp add: op_effect_def)
qed

lemma frame_op_effect: "frame s s' \<Longrightarrow> op_effect s s'"
  by (auto simp: frame_def op_effect_def backtracked_def)

lemma op_effect_mk_var: "op_effect s (mk_var n s)"
  unfolding op_effect_def
  by (auto simp: mk_var_def uf_mk_var_def Let_def backtracked_def
      intro!: exI [of _ "[mk_var_trail]"])

lemma find_new_diseq_axioms_loop_axioms:
  "find_new_diseq_axioms_loop occs l v idx s = Some s' \<Longrightarrow>
   \<exists>new. s' = s\<lparr>ctx_axioms := ctx_axioms s @ new\<rparr>"
proof (induction occs arbitrary: s)
  case Nil
  then have "s' = s\<lparr>ctx_axioms := ctx_axioms s @ []\<rparr>" by simp
  then show ?case by blast
next
  case (Cons occ occs)
  obtain v2 idx2 where occ: "occ = (v2, idx2)" by (cases occ)
  from Cons.prems obtain s1 where
    1: "find_new_diseq_axioms_loop occs l v idx s1 = Some s'"
    and 2: "s1 = s \<or> s1 = mk_new_diseq_axiom v v2 idx s"
    by (auto simp: occ split: if_splits Option.bind_splits)
  from Cons.IH [OF 1] obtain new where "s' = s1\<lparr>ctx_axioms := ctx_axioms s1 @ new\<rparr>" by blast
  with 2 have "s' = s\<lparr>ctx_axioms := ctx_axioms s @ new\<rparr> \<or>
               s' = s\<lparr>ctx_axioms := ctx_axioms s @ ([expr_neg (mk_eq v v2)] # new)\<rparr>"
    by (auto simp: mk_new_diseq_axiom_def mk_th_axiom_def)
  then show ?case by blast
qed

lemma find_new_diseq_axioms_axioms:
  "find_new_diseq_axioms occs v idx s = Some s' \<Longrightarrow>
   \<exists>new. s' = s\<lparr>ctx_axioms := ctx_axioms s @ new\<rparr>"
  by (auto simp: find_new_diseq_axioms_def split: Option.bind_splits
      dest: find_new_diseq_axioms_loop_axioms)

lemma op_effect_add_bit:
  assumes "add_bit v l s = Some s'" and "unowned_no_atom s"
  shows "op_effect s s' \<and> unowned_no_atom s'"
proof -
  from assms(1) obtain bits where bits: "nth_opt (m_bits s) v = Some bits"
    by (auto simp: add_bit_def split: Option.bind_splits)
  let ?s1 = "s\<lparr>m_bits := (m_bits s)[v := bits @ [l]]\<rparr>"
  consider (const) "var l = true_bool_var"
    | (owned) "var l \<noteq> true_bool_var" "ctx_var_theory s (var l)"
    | (fresh) "var l \<noteq> true_bool_var" "\<not> ctx_var_theory s (var l)"
    by blast
  then show ?thesis
  proof cases
    case const
    with assms bits show ?thesis
      by (auto simp: add_bit_def register_true_false_bit_def op_effect_def backtracked_def
          unowned_no_atom_def Let_def split: Option.bind_splits)
  next
    case owned
    with assms(1) bits obtain occs s2 where
      a: "m_bool_var2atom s (var l) = Some (bit_atom occs)"
      and f: "find_new_diseq_axioms occs v (length bits) ?s1 = Some s2"
      and s': "s' = s2\<lparr>m_trail_stack := add_var_pos_trail (var l) # m_trail_stack s2,
                        m_bool_var2atom := (m_bool_var2atom s2)(var l \<mapsto>
                           bit_atom ((v, length bits) # occs))\<rparr>"
      by (auto simp: add_bit_def Let_def split: Option.bind_splits option.splits atom.splits)
    from find_new_diseq_axioms_axioms [OF f] obtain new where
      s2: "s2 = ?s1\<lparr>ctx_axioms := ctx_axioms ?s1 @ new\<rparr>" by blast
    have "(m_bool_var2atom s)(var l \<mapsto> bit_atom occs) = m_bool_var2atom s"
      using a by (simp add: map_upd_triv)
    then have "fold undo_backtracked [add_var_pos_trail (var l)] (backtracked s') = backtracked s"
      by (simp add: s' s2 backtracked_def)
    moreover have "m_trail_stack s' = [add_var_pos_trail (var l)] @ m_trail_stack s"
      by (simp add: s' s2)
    moreover have "undo_path [add_var_pos_trail (var l)] (backtracked s')"
      by (cases "backtracked s'" rule: prod_cases4) simp
    ultimately have "\<exists>es. m_trail_stack s' = es @ m_trail_stack s \<and>
           fold undo_backtracked es (backtracked s') = backtracked s \<and>
           undo_path es (backtracked s')"
      by blast
    with assms(2) owned(2) show ?thesis
      by (auto simp: op_effect_def s' s2 unowned_no_atom_def)
  next
    case fresh
    with assms(1) bits have
      s': "s' = ?s1\<lparr>ctx_var_theory := (ctx_var_theory s)(var l := True),
                       m_trail_stack := mk_atom_trail (var l) # m_trail_stack s,
                       m_bool_var2atom := (m_bool_var2atom s)(var l \<mapsto> bit_atom [(v, length bits)])\<rparr>"
      by (auto simp: add_bit_def Let_def)
    from fresh(2) assms(2) have "m_bool_var2atom s (var l) = None"
      by (simp add: unowned_no_atom_def)
    then have "(m_bool_var2atom s)(var l := None) = m_bool_var2atom s"
      by (simp add: fun_upd_idem)
    then have "fold undo_backtracked [mk_atom_trail (var l)] (backtracked s') = backtracked s"
      by (simp add: s' backtracked_def)
    moreover have "m_trail_stack s' = [mk_atom_trail (var l)] @ m_trail_stack s"
      by (simp add: s')
    moreover have "undo_path [mk_atom_trail (var l)] (backtracked s')"
      by (cases "backtracked s'" rule: prod_cases4) simp
    ultimately have "\<exists>es. m_trail_stack s' = es @ m_trail_stack s \<and>
           fold undo_backtracked es (backtracked s') = backtracked s \<and>
           undo_path es (backtracked s')"
      by blast
    with assms(2) show ?thesis
      by (auto simp: op_effect_def s' unowned_no_atom_def)
  qed
qed

lemma op_effect_uf_merge:
  assumes "uf_merge v1 v2 s = Some s'"
  shows "op_effect s s'"
proof -
  from assms obtain f1 f2 where f: "uf_find s v1 = Some f1" "uf_find s v2 = Some f2"
    by (auto simp: uf_merge_def split: Option.bind_splits)
  show ?thesis
  proof (cases "f1 = f2")
    case True
    with assms f show ?thesis by (simp add: uf_merge_def)
  next
    case False
    define r1 where "r1 = (if m_size s ! f1 > m_size s ! f2 then f2 else f1)"
    define r2 where "r2 = (if m_size s ! f1 > m_size s ! f2 then f1 else f2)"
    define s1 where "s1 = s\<lparr>m_find := (m_find s)[r1 := r2],
                m_size := (m_size s)[r2 := m_size s ! f1 + m_size s ! f2],
                m_next := (m_next s)[r1 := m_next s ! r2, r2 := m_next s ! r1],
                m_trail_stack := merge_trail r1 # m_trail_stack s\<rparr>"
    from assms f False have rng: "f1 < length (m_size s)" "f2 < length (m_size s)"
      "r1 < length (m_next s)" "r2 < length (m_next s)"
      and m: "merge_eh r2 r1 v2 v1 s1 = Some s'"
      by (auto simp: uf_merge_def nth_opt_def Let_def r1_def r2_def s1_def
          split: Option.bind_splits if_splits)
    from f have roots: "f1 < length (m_find s)" "m_find s ! f1 = f1"
      "f2 < length (m_find s)" "m_find s ! f2 = f2"
      by (auto simp: uf_find_def dest: uf_find_loop_root)
    have r: "r1 \<noteq> r2" "r1 < length (m_find s)" "m_find s ! r1 = r1" "r2 < length (m_size s)"
      "r1 < length (m_size s)"
      "m_size s ! f1 + m_size s ! f2 - m_size s ! r1 = m_size s ! r2"
      using False roots rng by (auto simp: r1_def r2_def)
    have u1: "(m_find s)[r1 := r1] = m_find s"
      using r(3) by (metis list_update_id)
    have u2: "(m_size s)[r2 := m_size s ! r2] = m_size s"
      by (rule list_update_id)
    have u3: "(m_next s)[r1 := m_next s ! r1, r2 := m_next s ! r2] = m_next s"
      by (simp add: list_update_id)
    have "undo_backtracked (merge_trail r1) (backtracked s1) = backtracked s"
      using r rng(3,4)
      by (simp add: s1_def backtracked_def list_update_swap [of r1 r2] u1 u2 u3)
    moreover have "undo_path [merge_trail r1] (backtracked s1)"
      using r roots by (auto simp: s1_def backtracked_def r1_def r2_def)
    ultimately have "op_effect s s1"
      by (auto simp: op_effect_def s1_def intro!: exI [of _ "[merge_trail r1]"])
    from this frame_op_effect [OF frame_merge_eh [OF m]] show ?thesis
      by (rule op_effect_trans)
  qed
qed

lemma frame_unowned:
  "frame s s' \<Longrightarrow> unowned_no_atom s \<Longrightarrow> unowned_no_atom s'"
  by (simp add: frame_def unowned_no_atom_def)

lemma uf_merge_unowned:
  assumes "uf_merge v1 v2 s = Some s'" and "unowned_no_atom s"
  shows "unowned_no_atom s'"
proof -
  from assms(1) have "s' = s \<or> (\<exists>s1. frame s1 s' \<and> m_bool_var2atom s1 = m_bool_var2atom s \<and>
      ctx_var_theory s1 = ctx_var_theory s)"
    by (auto simp: uf_merge_def Let_def split: Option.bind_splits if_splits
        dest!: frame_merge_eh)
  with assms(2) show ?thesis
    by (auto simp: frame_def unowned_no_atom_def)
qed

lemma op_effect_apply_op:
  assumes "apply_op op s = Some s'" and "unowned_no_atom s"
  shows "op_effect s s' \<and> unowned_no_atom s'"
proof (cases op)
  case (Mk_var n)
  with assms show ?thesis
    by (auto simp: op_effect_mk_var) (simp add: unowned_no_atom_def mk_var_def uf_mk_var_def Let_def)
next
  case (Add_bit v l)
  with assms show ?thesis by (simp add: op_effect_add_bit)
next
  case (New_eq v1 v2)
  with assms have m: "uf_merge v1 v2 s = Some s'" by (simp add: new_eq_eh_def)
  from op_effect_uf_merge [OF m] uf_merge_unowned [OF m assms(2)] show ?thesis ..
qed

lemma apply_op_bits:
  assumes "apply_op op s = Some s'" and "\<forall>v l. op = Add_bit v l \<longrightarrow> n0 \<le> v"
    and "n0 \<le> length (m_bits s)"
  shows "take n0 (m_bits s') = take n0 (m_bits s) \<and> length (m_bits s) \<le> length (m_bits s')"
proof (cases op)
  case (Mk_var n)
  with assms show ?thesis
    by (auto simp: mk_var_def uf_mk_var_def Let_def)
next
  case (Add_bit v l)
  with assms have a: "add_bit v l s = Some s'" and v: "n0 \<le> v" by simp_all
  from a obtain bits where "nth_opt (m_bits s) v = Some bits"
    and "m_bits s' = (m_bits s)[v := bits @ [l]]"
    by (auto simp: add_bit_def Let_def register_true_false_bit_def
        split: Option.bind_splits if_splits option.splits atom.splits
        dest!: find_new_diseq_axioms_axioms)
  with v show ?thesis by simp
next
  case (New_eq v1 v2)
  with assms have "uf_merge v1 v2 s = Some s'" by (simp add: new_eq_eh_def)
  then have "m_bits s' = m_bits s"
    by (auto simp: uf_merge_def Let_def frame_def split: Option.bind_splits if_splits
        dest!: frame_merge_eh)
  then show ?thesis by simp
qed

lemma run_ops_effect:
  assumes "run_ops ops s = Some t" and "unowned_no_atom s"
    and "\<forall>v l. Add_bit v l \<in> set ops \<longrightarrow> n0 \<le> v"
    and "n0 \<le> length (m_bits s)"
  shows "op_effect s t \<and> unowned_no_atom t \<and>
         take n0 (m_bits t) = take n0 (m_bits s) \<and> length (m_bits s) \<le> length (m_bits t)"
  using assms
proof (induction ops arbitrary: s)
  case Nil
  then show ?case by simp
next
  case (Cons op ops)
  from Cons.prems(1) obtain s1 where 1: "apply_op op s = Some s1" and 2: "run_ops ops s1 = Some t"
    by (auto split: Option.bind_splits)
  from op_effect_apply_op [OF 1 Cons.prems(2)] have e1: "op_effect s s1" "unowned_no_atom s1"
    by simp_all
  from Cons.prems(3) have "\<forall>v l. op = Add_bit v l \<longrightarrow> n0 \<le> v" by auto
  from apply_op_bits [OF 1 this Cons.prems(4)]
  have b1: "take n0 (m_bits s1) = take n0 (m_bits s)" "length (m_bits s) \<le> length (m_bits s1)"
    by simp_all
  from Cons.prems(3) have "\<forall>v l. Add_bit v l \<in> set ops \<longrightarrow> n0 \<le> v" by auto
  moreover from b1 Cons.prems(4) have "n0 \<le> length (m_bits s1)" by simp
  ultimately have "op_effect s1 t \<and> unowned_no_atom t \<and>
         take n0 (m_bits t) = take n0 (m_bits s1) \<and> length (m_bits s1) \<le> length (m_bits t)"
    by (rule Cons.IH [OF 2 e1(2)])
  with e1 b1 show ?case
    by (auto intro: op_effect_trans)
qed

text \<open>
  If the pop returns, it has restored the backtracked part of the state and the bit arrays.
\<close>

lemma pop_undo_restores:
  assumes run: "run_ops ops (push_scope_eh s) = Some t"
    and fresh: "\<forall>v l. Add_bit v l \<in> set ops \<longrightarrow> length (m_bits s) \<le> v"
    and len: "length (m_bits s) = length (m_var2enode s)"
    and own: "unowned_no_atom s"
    and pop: "pop_scope_eh 1 t = Some u"
  shows "m_bool_var2atom u = m_bool_var2atom s \<and> m_bits u = m_bits s \<and>
         m_find u = m_find s \<and> m_size u = m_size s \<and> m_next u = m_next s"
proof -
  let ?s0 = "push_scope_eh s"
  have s0: "m_trail_stack ?s0 = m_trail_stack s" "m_scopes ?s0 = m_scopes s @ [length (m_trail_stack s)]"
    "m_var2enode_lim ?s0 = m_var2enode_lim s @ [length (m_var2enode s)]"
    "backtracked ?s0 = backtracked s" "m_bits ?s0 = m_bits s" "unowned_no_atom ?s0"
    using own by (simp_all add: push_scope_eh_def trail_push_scope_def backtracked_def unowned_no_atom_def)
  from run_ops_effect [OF run s0(6), of "length (m_bits s)"] fresh
  have eff: "op_effect ?s0 t" and bits: "take (length (m_bits s)) (m_bits t) = m_bits s"
    by (simp_all add: s0)
  from eff obtain es where es: "m_trail_stack t = es @ m_trail_stack s"
    "fold undo_backtracked es (backtracked t) = backtracked s"
    and sc: "m_scopes t = m_scopes s @ [length (m_trail_stack s)]"
    "m_var2enode_lim t = m_var2enode_lim s @ [length (m_var2enode s)]"
    by (auto simp: op_effect_def s0)
  from pop obtain s1 where tp: "trail_pop_scope 1 t = Some s1"
    by (auto simp: pop_scope_eh_def split: Option.bind_splits)
  then obtain s2 where u2: "undo_entries es t = Some s2"
    and s1: "s1 = s2\<lparr>m_trail_stack := m_trail_stack s, m_scopes := m_scopes s\<rparr>"
    by (auto simp: trail_pop_scope_def undo_trail_stack_def Let_def sc es nth_append
        split: Option.bind_splits if_splits)
  from undo_entries_backtracked [OF u2] es(2)
  have r2: "backtracked s2 = backtracked s" and f2: "undo_frame t s2" by simp_all
  from pop tp have u: "u = s1\<lparr>m_bits := take (length (m_var2enode s)) (m_bits s1),
                    m_wpos := take (length (m_var2enode s)) (m_wpos s1),
                    m_zero_one_bits := take (length (m_var2enode s)) (m_zero_one_bits s1),
                    m_var2enode := take (length (m_var2enode s)) (m_var2enode s1),
                    m_var2enode_lim := m_var2enode_lim s\<rparr>"
    using f2 by (auto simp: pop_scope_eh_def s1 undo_frame_def sc nth_opt_def nth_append Let_def
        split: if_splits)
  from r2 f2 bits len show ?thesis
    by (simp add: u s1 backtracked_def undo_frame_def)
qed

section \<open>Classes after a link and after a new variable\<close>

lemma uf_find_loop_link_fwd_aux:
  assumes "uf_find_loop pf v = Some r0"
    and "r1 < length pf" and "pf ! r1 = r1" and "r2 < length pf" and "pf ! r2 = r2" and "r1 \<noteq> r2"
  shows "uf_find_loop (pf[r1 := r2]) v = Some (if r0 = r1 then r2 else r0)"
  using assms
proof (induction rule: uf_find_loop_induct)
  case (step f pf v r0)
  from step.hyps have v: "v < length pf"
    by (auto simp: nth_opt_def split: if_splits)
  show ?case
  proof (cases "v = r1")
    case True
    with step.hyps step.prems have "r0 = r1"
      by (auto simp: nth_opt_def split: if_splits)
    moreover have "uf_find_loop (pf[r1 := r2]) r1 = uf_find_loop (pf[r1 := r2]) r2"
      using step.prems by (subst uf_find_loop.simps) (simp add: nth_opt_def)
    moreover have "uf_find_loop (pf[r1 := r2]) r2 = Some r2"
      using step.prems by (simp add: uf_find_loop_self)
    ultimately show ?thesis using True by simp
  next
    case False
    show ?thesis
    proof (cases "pf ! v = v")
      case True
      with v step.hyps have "r0 = v"
        by (auto simp: nth_opt_def split: if_splits)
      with True v False show ?thesis by (simp add: uf_find_loop_self)
    next
      case nr: False
      with v step.hyps have "f pf (pf ! v) = Some r0"
        by (auto simp: nth_opt_def split: if_splits)
      from step.IH [OF this step.prems]
      have "uf_find_loop (pf[r1 := r2]) (pf ! v) = Some (if r0 = r1 then r2 else r0)" .
      moreover have "uf_find_loop (pf[r1 := r2]) v = uf_find_loop (pf[r1 := r2]) (pf ! v)"
        using v nr False by (subst uf_find_loop.simps) (simp add: nth_opt_def)
      ultimately show ?thesis by simp
    qed
  qed
qed

lemma uf_find_loop_append_fwd:
  assumes "uf_find_loop pf v = Some r"
  shows "uf_find_loop (pf @ xs) v = Some r"
  using assms
proof (induction rule: uf_find_loop_induct)
  case (step f pf v r)
  from step.hyps have v: "v < length pf"
    by (auto simp: nth_opt_def split: if_splits)
  show ?case
  proof (cases "pf ! v = v")
    case True
    with v step.hyps have "r = v"
      by (auto simp: nth_opt_def split: if_splits)
    with True v show ?thesis by (simp add: uf_find_loop_self nth_append)
  next
    case False
    with v step.hyps have "f pf (pf ! v) = Some r"
      by (auto simp: nth_opt_def split: if_splits)
    from step.IH [OF this] have "uf_find_loop (pf @ xs) (pf ! v) = Some r" .
    moreover have "uf_find_loop (pf @ xs) v = uf_find_loop (pf @ xs) (pf ! v)"
      using v False by (subst uf_find_loop.simps) (simp add: nth_opt_def nth_append)
    ultimately show ?thesis by simp
  qed
qed


section \<open>The pop of a scope returns\<close>

text \<open>The propagation does not touch the zero-one-bit summaries.\<close>

lemma zob_fixed_var_eh:
  "fixed_var_eh v s = Some s' \<Longrightarrow> m_zero_one_bits s' = m_zero_one_bits s"
  by (auto simp: fixed_var_eh_def assign_eq_def Let_def
      split: option.splits if_splits prod.splits Option.bind_splits)

lemma zob_find_wpos:
  "find_wpos v s = Some s' \<Longrightarrow> m_zero_one_bits s' = m_zero_one_bits s"
  by (auto simp: find_wpos_def split: option.splits Option.bind_splits
      dest!: zob_fixed_var_eh)

lemma zob_ctx_assign [simp]: "m_zero_one_bits (ctx_assign l js s) = m_zero_one_bits s"
  by (simp add: ctx_assign_def set_conflict_def split: lbool.splits)

lemma zob_set_conflict [simp]: "m_zero_one_bits (set_conflict js s) = m_zero_one_bits s"
  by (simp add: set_conflict_def)

lemma zob_assign_bit_occs:
  "assign_bit_occs occs p v2 idx s = Some s' \<Longrightarrow> m_zero_one_bits s' = m_zero_one_bits s"
proof (induction occs arbitrary: s)
  case Nil
  then show ?case by simp
next
  case (Cons occ occs)
  obtain cv ci where occ: "occ = (cv, ci)" by (cases occ)
  from Cons.prems obtain push where
    "assign_bit_occs occs p v2 idx
       (if push then s\<lparr>m_prop_queue := m_prop_queue s @ [(cv, ci)]\<rparr> else s) = Some s'"
    by (auto simp: occ split: Option.bind_splits)
  from Cons.IH [OF this] show ?case
    by (auto split: if_splits)
qed

lemma zob_assign_bit:
  "assign_bit c v1 v2 idx a p s = Some s' \<Longrightarrow> m_zero_one_bits s' = m_zero_one_bits s"
  unfolding assign_bit_def
  by (auto simp: Let_def split: if_splits Option.bind_splits option.splits atom.splits
      dest!: zob_assign_bit_occs zob_find_wpos)

lemma zob_propagate_bits_class:
  "propagate_bits_class v idx b val v2 s = Some r \<Longrightarrow>
   m_zero_one_bits (snd r) = m_zero_one_bits s"
proof (induction rule: propagate_bits_class_induct)
  case (step f v idx b val v2 s r)
  from step.hyps show ?case
    by (auto simp: Let_def uf_next_def split: if_splits Option.bind_splits
        dest!: zob_assign_bit step.IH)
qed

lemma zob_propagate_bits_loop:
  "propagate_bits_loop i s = Some s' \<Longrightarrow> m_zero_one_bits s' = m_zero_one_bits s"
proof (induction rule: propagate_bits_loop_induct)
  case (step f i s s')
  from step.hyps show ?case
    by (auto simp: Let_def uf_next_def split: if_splits Option.bind_splits
        dest!: zob_propagate_bits_class zob_find_wpos step.IH)
qed

lemma zob_merge_eh_pass:
  "merge_eh_pass v1 v2 sz idx changed s = Some r \<Longrightarrow>
   m_zero_one_bits (snd (snd r)) = m_zero_one_bits s"
proof (induction "sz - idx" arbitrary: idx changed s r)
  case 0
  then show ?case
    by (subst (asm) merge_eh_pass.simps) auto
next
  case (Suc n)
  from Suc.hyps(2) have n: "n = sz - Suc idx" "idx < sz" by simp_all
  from Suc.prems n(2) show ?case
    by (subst (asm) merge_eh_pass.simps)
      (auto simp: Let_def split: if_splits Option.bind_splits
        dest!: zob_assign_bit Suc.hyps(1) [OF n(1)])
qed

lemma zob_merge_eh_loop:
  "merge_eh_loop v1 v2 sz s = Some r \<Longrightarrow> m_zero_one_bits (snd r) = m_zero_one_bits s"
proof (induction rule: merge_eh_loop_induct)
  case (step f v1 v2 sz s r)
  from step.hyps show ?case
    by (auto split: if_splits Option.bind_splits dest!: zob_merge_eh_pass step.IH)
qed

lemma merge_zero_one_bits_loop_zob:
  assumes "merge_zero_one_bits_loop bits2 aux r1 s = (ok, s')" and "r1 < length (m_zero_one_bits s)"
  shows "\<exists>C. m_zero_one_bits s' = (m_zero_one_bits s)[r1 := m_zero_one_bits s ! r1 @ C] \<and>
             set C \<subseteq> set bits2"
  using assms
proof (induction bits2 arbitrary: s)
  case Nil
  then have "m_zero_one_bits s' = (m_zero_one_bits s)[r1 := m_zero_one_bits s ! r1 @ []]"
    by simp
  then show ?case by (intro exI [of _ "[]"]) simp
next
  case (Cons e bits2)
  show ?case
  proof (cases "aux (\<not> m_is_true e) (m_idx e)")
    case (Some v1)
    with Cons.prems have "m_zero_one_bits s' = (m_zero_one_bits s)[r1 := m_zero_one_bits s ! r1 @ []]"
      by (auto simp: mk_new_diseq_axiom_def mk_th_axiom_def)
    then show ?thesis by (intro exI [of _ "[]"]) simp
  next
    case None
    define copy where "copy = (aux (m_is_true e) (m_idx e) = None)"
    define s1 where "s1 = (if copy
             then s\<lparr>m_zero_one_bits := (m_zero_one_bits s)[r1 := m_zero_one_bits s ! r1 @ [e]]\<rparr>
             else s)"
    from None Cons.prems have 1: "merge_zero_one_bits_loop bits2 aux r1 s1 = (ok, s')"
      by (simp add: s1_def copy_def)
    from Cons.prems have 2: "r1 < length (m_zero_one_bits s1)" by (simp add: s1_def)
    from Cons.IH [OF 1 2] obtain C where
      C: "m_zero_one_bits s' = (m_zero_one_bits s1)[r1 := m_zero_one_bits s1 ! r1 @ C]"
      "set C \<subseteq> set bits2" by blast
    show ?thesis
    proof (cases copy)
      case True
      with C Cons.prems(2)
      have "m_zero_one_bits s' = (m_zero_one_bits s)[r1 := m_zero_one_bits s ! r1 @ (e # C)]"
        by (simp add: s1_def)
      moreover from C have "set (e # C) \<subseteq> set (e # bits2)" by auto
      ultimately show ?thesis by blast
    next
      case False
      with C have "m_zero_one_bits s' = (m_zero_one_bits s)[r1 := m_zero_one_bits s ! r1 @ C]"
        by (simp add: s1_def)
      moreover from C have "set C \<subseteq> set (e # bits2)" by auto
      ultimately show ?thesis by blast
    qed
  qed
qed

lemma merge_eh_zob:
  assumes "merge_eh r1 r2 v1 v2 s = Some s'" and "r1 < length (m_zero_one_bits s)"
  shows "\<exists>C. m_zero_one_bits s' = (m_zero_one_bits s)[r1 := m_zero_one_bits s ! r1 @ C] \<and>
             set C \<subseteq> set (m_zero_one_bits s ! r2)"
proof -
  from assms(1) obtain z where z: "merge_zero_one_bits r1 r2 s = Some z"
    by (auto simp: merge_eh_def split: Option.bind_splits)
  have "\<exists>C. m_zero_one_bits (snd z) = (m_zero_one_bits s)[r1 := m_zero_one_bits s ! r1 @ C] \<and>
             set C \<subseteq> set (m_zero_one_bits s ! r2)"
  proof (cases "m_zero_one_bits s ! r2 = []")
    case True
    with z have "m_zero_one_bits (snd z) = (m_zero_one_bits s)[r1 := m_zero_one_bits s ! r1 @ []]"
      by (auto simp: merge_zero_one_bits_def nth_opt_def split: Option.bind_splits if_splits)
    then show ?thesis by (intro exI [of _ "[]"]) simp
  next
    case False
    with z obtain aux where
      "merge_zero_one_bits_loop (m_zero_one_bits s ! r2) aux r1 s = (fst z, snd z)"
      by (auto simp: merge_zero_one_bits_def nth_opt_def split: Option.bind_splits if_splits)
    from merge_zero_one_bits_loop_zob [OF this assms(2)] show ?thesis .
  qed
  moreover from assms(1) z have "m_zero_one_bits s' = m_zero_one_bits (snd z)"
    by (auto simp: merge_eh_def Let_def propagate_bits_def split: Option.bind_splits if_splits
        dest!: zob_merge_eh_loop zob_propagate_bits_loop)
  ultimately show ?thesis by simp
qed

text \<open>The scan of \<^verbatim>\<open>unmerge_eh\<close> reads the union-find structure only.\<close>

lemma unmerge_eh_loop_find:
  "m_find s' = m_find s \<Longrightarrow> unmerge_eh_loop s' v1 bits j = unmerge_eh_loop s v1 bits j"
  by (induction j) (simp_all add: uf_find_def cong: if_cong)

lemma unmerge_eh_loop_stop:
  assumes "L \<noteq> []" and "uf_find s (m_owner (last L)) = Some v1"
  shows "unmerge_eh_loop s v1 (L @ X) (length L) = Some L"
proof -
  from assms(1) obtain j where j: "length L = Suc j" by (cases L) auto
  with assms(1) have "(L @ X) ! j = last L"
    by (simp add: nth_append last_conv_nth)
  with assms(2) have "unmerge_eh_loop s v1 (L @ X) (Suc j) = Some (take (Suc j) (L @ X))"
    by simp
  then show ?thesis by (simp add: j [symmetric])
qed

lemma unmerge_eh_loop_pass:
  assumes "\<forall>e \<in> set C. \<exists>r. uf_find s (m_owner e) = Some r \<and> r \<noteq> v1"
    and "L = [] \<or> uf_find s (m_owner (last L)) = Some v1"
  shows "unmerge_eh_loop s v1 (L @ C @ X) (length L + length C) = Some L"
  using assms(1)
proof (induction C arbitrary: X rule: rev_induct)
  case Nil
  show ?case
  proof (cases "L = []")
    case True
    then show ?thesis by simp
  next
    case False
    with assms(2) unmerge_eh_loop_stop [of L s v1 X] show ?thesis by simp
  qed
next
  case (snoc c C)
  from snoc.prems obtain r where r: "uf_find s (m_owner c) = Some r" "r \<noteq> v1" by auto
  have "(L @ (C @ [c]) @ X) ! (length L + length C) = c"
    by (simp add: nth_append)
  with r have "unmerge_eh_loop s v1 (L @ (C @ [c]) @ X) (length L + length (C @ [c])) =
        unmerge_eh_loop s v1 (L @ C @ ([c] @ X)) (length L + length C)"
    by simp
  also from snoc.IH [of "[c] @ X"] snoc.prems have "\<dots> = Some L" by simp
  finally show ?case .
qed

text \<open>
  Two states that the undoing cannot tell apart: the same atom table and union-find
  structure, and for every variable the same zero-one-bit summary or one that ends in an
  entry of the variable itself, where the scan of \<^verbatim>\<open>unmerge_eh\<close> stops at once.
\<close>

definition undo_sim :: "theory_bv \<Rightarrow> theory_bv \<Rightarrow> bool" where
  "undo_sim s s' \<longleftrightarrow>
     backtracked s' = backtracked s \<and>
     length (m_zero_one_bits s) \<le> length (m_zero_one_bits s') \<and>
     (\<forall>i<length (m_zero_one_bits s).
        m_zero_one_bits s' ! i = m_zero_one_bits s ! i \<or>
        (m_zero_one_bits s' ! i \<noteq> [] \<and> m_owner (last (m_zero_one_bits s' ! i)) = i))"

lemma undo_sim_refl [simp]: "undo_sim s s"
  by (simp add: undo_sim_def)

lemma bv_undo_sim:
  assumes u: "bv_undo e s = Some s1" and sim: "undo_sim s s'"
    and rdy: "undo_ready e (backtracked s)"
  shows "\<exists>s1'. bv_undo e s' = Some s1' \<and> undo_sim s1 s1'"
proof (cases e)
  case (mk_atom_trail b)
  with u sim show ?thesis
    by (auto simp: undo_sim_def backtracked_def split: option.splits)
next
  case (add_var_pos_trail b)
  with u sim show ?thesis
    by (auto simp: undo_sim_def backtracked_def split: option.splits atom.splits list.splits)
next
  case mk_var_trail
  with u sim show ?thesis
    by (auto simp: undo_sim_def backtracked_def split: if_splits)
next
  case (merge_trail r1)
  from sim have R: "m_find s' = m_find s" "m_size s' = m_size s" "m_next s' = m_next s"
    "m_bool_var2atom s' = m_bool_var2atom s"
    and len: "length (m_zero_one_bits s) \<le> length (m_zero_one_bits s')"
    and rel: "\<forall>i<length (m_zero_one_bits s).
        m_zero_one_bits s' ! i = m_zero_one_bits s ! i \<or>
        (m_zero_one_bits s' ! i \<noteq> [] \<and> m_owner (last (m_zero_one_bits s' ! i)) = i)"
    by (simp_all add: undo_sim_def backtracked_def)
  define r2 where "r2 = m_find s ! r1"
  define su where "su = (\<lambda>t::theory_bv. t\<lparr>m_size := (m_size s)[r2 := m_size s ! r2 - m_size s ! r1],
            m_find := (m_find s)[r1 := r1],
            m_next := (m_next s)[r1 := m_next s ! r2, r2 := m_next s ! r1]\<rparr>)"
  from u merge_trail have rng: "r1 < length (m_find s)" "r1 < length (m_size s)"
    "r2 < length (m_size s)" "r1 < length (m_next s)" "r2 < length (m_next s)"
    and um: "unmerge_eh r2 r1 (su s) = Some s1"
    by (auto simp: uf_unmerge_def nth_opt_def r2_def su_def split: Option.bind_splits if_splits)
  from rng have um': "bv_undo e s' = unmerge_eh r2 r1 (su s')"
    by (simp add: merge_trail uf_unmerge_def nth_opt_def R r2_def su_def)
  from rdy merge_trail have root: "r2 < length (m_find s)" "m_find s ! r2 = r2" "r2 \<noteq> r1"
    by (simp_all add: backtracked_def r2_def)
  have f2: "uf_find (su s') r2 = Some r2"
    using root by (simp add: uf_find_def su_def uf_find_loop_self)
  have bts: "backtracked (su s') = backtracked (su s)"
    by (simp add: backtracked_def su_def R)
  have z: "m_zero_one_bits (su s) = m_zero_one_bits s" "m_zero_one_bits (su s') = m_zero_one_bits s'"
    "m_find (su s') = m_find (su s)"
    by (simp_all add: su_def)
  from um have r2z: "r2 < length (m_zero_one_bits s)"
    by (auto simp: unmerge_eh_def nth_opt_def z split: Option.bind_splits if_splits)
  with len have r2z': "r2 < length (m_zero_one_bits s')" by simp
  from rel r2z consider (exact) "m_zero_one_bits s' ! r2 = m_zero_one_bits s ! r2"
    | (shield) "m_zero_one_bits s' ! r2 \<noteq> []" "m_owner (last (m_zero_one_bits s' ! r2)) = r2"
    by blast
  then show ?thesis
  proof cases
    case exact
    show ?thesis
    proof (cases "m_zero_one_bits s ! r2 = []")
      case True
      with um exact r2z r2z' have "s1 = su s" "unmerge_eh r2 r1 (su s') = Some (su s')"
        by (simp_all add: unmerge_eh_def nth_opt_def z)
      moreover have "undo_sim (su s) (su s')"
        using len rel bts by (simp add: undo_sim_def z)
      ultimately show ?thesis by (simp add: um')
    next
      case False
      with um r2z obtain bits' where
        l: "unmerge_eh_loop (su s) r2 (m_zero_one_bits s ! r2) (length (m_zero_one_bits s ! r2)) = Some bits'"
        and s1: "s1 = (su s)\<lparr>m_zero_one_bits := (m_zero_one_bits s)[r2 := bits']\<rparr>"
        by (auto simp: unmerge_eh_def nth_opt_def z split: Option.bind_splits)
      from l have "unmerge_eh_loop (su s') r2 (m_zero_one_bits s ! r2) (length (m_zero_one_bits s ! r2)) = Some bits'"
        by (simp add: unmerge_eh_loop_find [OF z(3)])
      with False exact r2z' have
        "unmerge_eh r2 r1 (su s') = Some ((su s')\<lparr>m_zero_one_bits := (m_zero_one_bits s')[r2 := bits']\<rparr>)"
        by (simp add: unmerge_eh_def nth_opt_def z)
      moreover have "undo_sim s1 ((su s')\<lparr>m_zero_one_bits := (m_zero_one_bits s')[r2 := bits']\<rparr>)"
        unfolding undo_sim_def
      proof (intro conjI allI impI)
        show "backtracked ((su s')\<lparr>m_zero_one_bits := (m_zero_one_bits s')[r2 := bits']\<rparr>) = backtracked s1"
          using bts by (simp add: s1 backtracked_def)
        show "length (m_zero_one_bits s1)
          \<le> length (m_zero_one_bits ((su s')\<lparr>m_zero_one_bits := (m_zero_one_bits s')[r2 := bits']\<rparr>))"
          using len by (simp add: s1)
      next
        fix i assume "i < length (m_zero_one_bits s1)"
        then have i: "i < length (m_zero_one_bits s)" by (simp add: s1)
        let ?z' = "m_zero_one_bits ((su s')\<lparr>m_zero_one_bits := (m_zero_one_bits s')[r2 := bits']\<rparr>)"
        show "?z' ! i = m_zero_one_bits s1 ! i \<or> (?z' ! i \<noteq> [] \<and> m_owner (last (?z' ! i)) = i)"
        proof (cases "i = r2")
          case True
          with r2z r2z' show ?thesis by (simp add: s1)
        next
          case False
          with rel i show ?thesis by (simp add: s1)
        qed
      qed
      ultimately show ?thesis by (auto simp: um')
    qed
  next
    case shield
    from unmerge_eh_loop_stop [of "m_zero_one_bits s' ! r2" "su s'" r2 "[]"] shield f2
    have "unmerge_eh_loop (su s') r2 (m_zero_one_bits s' ! r2) (length (m_zero_one_bits s' ! r2)) =
          Some (m_zero_one_bits s' ! r2)"
      by simp
    with shield r2z' have 1: "unmerge_eh r2 r1 (su s') = Some (su s')"
      by (simp add: unmerge_eh_def nth_opt_def z)
    from um r2z obtain bits' where s1: "s1 = su s \<or> s1 = (su s)\<lparr>m_zero_one_bits := (m_zero_one_bits s)[r2 := bits']\<rparr>"
      by (auto simp: unmerge_eh_def nth_opt_def z split: Option.bind_splits if_splits)
    have "undo_sim s1 (su s')"
      unfolding undo_sim_def
    proof (intro conjI allI impI)
      from s1 bts show "backtracked (su s') = backtracked s1"
        by (auto simp: backtracked_def)
      from s1 len show "length (m_zero_one_bits s1) \<le> length (m_zero_one_bits (su s'))"
        by (auto simp: z)
    next
      fix i assume "i < length (m_zero_one_bits s1)"
      with s1 have i: "i < length (m_zero_one_bits s)" by (auto simp: z)
      show "m_zero_one_bits (su s') ! i = m_zero_one_bits s1 ! i \<or>
         (m_zero_one_bits (su s') ! i \<noteq> [] \<and> m_owner (last (m_zero_one_bits (su s') ! i)) = i)"
      proof (cases "i = r2")
        case True
        with shield show ?thesis by (simp add: z)
      next
        case False
        with rel i s1 show ?thesis by (auto simp: z)
      qed
    qed
    with 1 show ?thesis by (auto simp: um')
  qed
qed

lemma undo_entries_sim:
  assumes "undo_entries es s = Some u" and "undo_sim s s'" and "undo_path es (backtracked s)"
  shows "\<exists>u'. undo_entries es s' = Some u' \<and> undo_sim u u'"
  using assms
proof (induction es arbitrary: s s')
  case Nil
  then show ?case by simp
next
  case (Cons e es)
  from Cons.prems(1) obtain s1 where 1: "bv_undo e s = Some s1" and 2: "undo_entries es s1 = Some u"
    by (auto split: Option.bind_splits)
  from Cons.prems(3) have rdy: "undo_ready e (backtracked s)"
    and p: "undo_path es (undo_backtracked e (backtracked s))" by simp_all
  from bv_undo_sim [OF 1 Cons.prems(2) rdy] obtain s1' where
    3: "bv_undo e s' = Some s1'" and 4: "undo_sim s1 s1'" by blast
  from bv_undo_backtracked [OF 1] p have "undo_path es (backtracked s1)" by simp
  from Cons.IH [OF 2 4 this] 3 show ?case by simp
qed

text \<open>
  A well-formed state at a scope boundary: one zero-one-bit summary per variable of the
  union-find structure, every variable has a root, the summary of a root names variables
  of its class only, and no atom belongs to a Boolean variable that the plugin does not
  own.
\<close>

definition scope_wf :: "theory_bv \<Rightarrow> bool" where
  "scope_wf s \<longleftrightarrow>
     length (m_find s) = length (m_zero_one_bits s) \<and>
     (\<forall>v<length (m_find s). uf_find_loop (m_find s) v \<noteq> None) \<and>
     (\<forall>i<length (m_find s). m_find s ! i = i \<longrightarrow>
        (\<forall>e \<in> set (m_zero_one_bits s ! i). uf_find_loop (m_find s) (m_owner e) = Some i)) \<and>
     unowned_no_atom s"

lemma undo_sim_trans:
  assumes "undo_sim s s1" and "undo_sim s1 s2"
  shows "undo_sim s s2"
  unfolding undo_sim_def
proof (intro conjI allI impI)
  from assms show "backtracked s2 = backtracked s" by (simp add: undo_sim_def)
  from assms show "length (m_zero_one_bits s) \<le> length (m_zero_one_bits s2)"
    by (simp add: undo_sim_def)
next
  fix i assume i: "i < length (m_zero_one_bits s)"
  with assms(1) have i1: "i < length (m_zero_one_bits s1)" by (simp add: undo_sim_def)
  from assms(1) i have a: "m_zero_one_bits s1 ! i = m_zero_one_bits s ! i \<or>
        (m_zero_one_bits s1 ! i \<noteq> [] \<and> m_owner (last (m_zero_one_bits s1 ! i)) = i)"
    by (simp add: undo_sim_def)
  from assms(2) i1 have b: "m_zero_one_bits s2 ! i = m_zero_one_bits s1 ! i \<or>
        (m_zero_one_bits s2 ! i \<noteq> [] \<and> m_owner (last (m_zero_one_bits s2 ! i)) = i)"
    by (simp add: undo_sim_def)
  from a b show "m_zero_one_bits s2 ! i = m_zero_one_bits s ! i \<or>
        (m_zero_one_bits s2 ! i \<noteq> [] \<and> m_owner (last (m_zero_one_bits s2 ! i)) = i)"
    by auto
qed

lemma undo_entries_append:
  "undo_entries (es1 @ es2) s = undo_entries es1 s \<bind> undo_entries es2"
  by (induction es1 arbitrary: s) (simp_all add: Option.bind_assoc cong: Option.bind_cong)

lemma apply_op_undo_mk_var:
  assumes wf: "scope_wf s"
  shows "scope_wf (mk_var n s) \<and>
    (\<exists>new s''. m_trail_stack (mk_var n s) = new @ m_trail_stack s \<and>
       undo_entries new (mk_var n s) = Some s'' \<and> undo_sim s s'' \<and>
       undo_path new (backtracked (mk_var n s)))"
proof
  let ?s' = "mk_var n s"
  have f: "m_find ?s' = m_find s @ [length (m_find s)]"
    "m_zero_one_bits ?s' = m_zero_one_bits s @ [[]]" "m_size ?s' = m_size s @ [1]"
    "m_next ?s' = m_next s @ [length (m_find s)]"
    "m_trail_stack ?s' = mk_var_trail # m_trail_stack s"
    "m_bool_var2atom ?s' = m_bool_var2atom s" "ctx_var_theory ?s' = ctx_var_theory s"
    by (simp_all add: mk_var_def uf_mk_var_def Let_def)
  from wf have len: "length (m_find s) = length (m_zero_one_bits s)"
    and tot: "\<forall>v<length (m_find s). uf_find_loop (m_find s) v \<noteq> None"
    and zc: "\<forall>i<length (m_find s). m_find s ! i = i \<longrightarrow>
        (\<forall>e \<in> set (m_zero_one_bits s ! i). uf_find_loop (m_find s) (m_owner e) = Some i)"
    and own: "unowned_no_atom s"
    by (simp_all add: scope_wf_def)
  show "scope_wf ?s'"
    unfolding scope_wf_def
  proof (intro conjI allI impI ballI)
    show "length (m_find ?s') = length (m_zero_one_bits ?s')" by (simp add: f len)
    from own show "unowned_no_atom ?s'" by (simp add: unowned_no_atom_def f)
  next
    fix v assume "v < length (m_find ?s')"
    then have "v < length (m_find s) \<or> v = length (m_find s)" by (auto simp: f)
    then consider "v < length (m_find s)" | "v = length (m_find s)" by blast
    then show "uf_find_loop (m_find ?s') v \<noteq> None"
    proof cases
      case 1
      with tot obtain r where "uf_find_loop (m_find s) v = Some r" by auto
      from uf_find_loop_append_fwd [OF this] show ?thesis by (simp add: f)
    next
      case 2
      then show ?thesis by (simp add: f uf_find_loop_self)
    qed
  next
    fix i e assume i: "i < length (m_find ?s')" and root: "m_find ?s' ! i = i"
      and e: "e \<in> set (m_zero_one_bits ?s' ! i)"
    show "uf_find_loop (m_find ?s') (m_owner e) = Some i"
    proof (cases "i < length (m_find s)")
      case True
      with root e len have "m_find s ! i = i" "e \<in> set (m_zero_one_bits s ! i)"
        by (simp_all add: f nth_append)
      with zc True have "uf_find_loop (m_find s) (m_owner e) = Some i" by blast
      from uf_find_loop_append_fwd [OF this] show ?thesis by (simp add: f)
    next
      case False
      with i have "i = length (m_zero_one_bits s)" by (simp add: f len)
      with e show ?thesis by (simp add: f)
    qed
  qed
  let ?s'' = "?s'\<lparr>m_find := butlast (m_find ?s'), m_size := butlast (m_size ?s'),
                   m_next := butlast (m_next ?s')\<rparr>"
  have "undo_entries [mk_var_trail] ?s' = Some ?s''" by (simp add: f)
  moreover have "undo_sim s ?s''"
    by (simp add: undo_sim_def backtracked_def f nth_append)
  ultimately show "\<exists>new s''. m_trail_stack ?s' = new @ m_trail_stack s \<and>
       undo_entries new ?s' = Some s'' \<and> undo_sim s s'' \<and> undo_path new (backtracked ?s')"
    by (intro exI [of _ "[mk_var_trail]"] exI [of _ ?s'']) (simp add: f)
qed

lemma apply_op_undo_add_bit:
  assumes ab: "add_bit v l s = Some s'" and wf: "scope_wf s"
  shows "scope_wf s' \<and>
    (\<exists>new s''. m_trail_stack s' = new @ m_trail_stack s \<and>
       undo_entries new s' = Some s'' \<and> undo_sim s s'' \<and> undo_path new (backtracked s'))"
proof -
  from wf have len: "length (m_find s) = length (m_zero_one_bits s)"
    and tot: "\<forall>v<length (m_find s). uf_find_loop (m_find s) v \<noteq> None"
    and zc: "\<forall>i<length (m_find s). m_find s ! i = i \<longrightarrow>
        (\<forall>e \<in> set (m_zero_one_bits s ! i). uf_find_loop (m_find s) (m_owner e) = Some i)"
    and own: "unowned_no_atom s"
    by (simp_all add: scope_wf_def)
  from op_effect_add_bit [OF ab own] have own': "unowned_no_atom s'" by simp
  from ab obtain bits where bits: "nth_opt (m_bits s) v = Some bits"
    by (auto simp: add_bit_def split: Option.bind_splits)
  let ?s1 = "s\<lparr>m_bits := (m_bits s)[v := bits @ [l]]\<rparr>"
  consider (const) "var l = true_bool_var"
    | (owned) "var l \<noteq> true_bool_var" "ctx_var_theory s (var l)"
    | (fresh) "var l \<noteq> true_bool_var" "\<not> ctx_var_theory s (var l)"
    by blast
  then show ?thesis
  proof cases
    case const
    define e where "e = zero_one_bit v (length bits) (l = true_literal)"
    have e: "m_owner e = v" by (simp add: e_def)
    from const ab bits have v: "v < length (m_zero_one_bits s)"
      and s': "s' = ?s1\<lparr>m_zero_one_bits := (m_zero_one_bits s)[v := m_zero_one_bits s ! v @ [e]]\<rparr>"
      by (auto simp: add_bit_def register_true_false_bit_def Let_def nth_opt_def e_def
          split: Option.bind_splits if_splits)
    have wf': "scope_wf s'"
      unfolding scope_wf_def
    proof (intro conjI allI impI ballI)
      show "length (m_find s') = length (m_zero_one_bits s')" by (simp add: s' len)
      show "unowned_no_atom s'" by fact
    next
      fix w assume "w < length (m_find s')"
      with tot show "uf_find_loop (m_find s') w \<noteq> None" by (simp add: s')
    next
      fix i x assume i: "i < length (m_find s')" and root: "m_find s' ! i = i"
        and x: "x \<in> set (m_zero_one_bits s' ! i)"
      show "uf_find_loop (m_find s') (m_owner x) = Some i"
      proof (cases "i = v")
        case True
        with x v have "x \<in> set (m_zero_one_bits s ! v) \<or> x = e" by (auto simp: s')
        then show ?thesis
        proof
          assume "x \<in> set (m_zero_one_bits s ! v)"
          with zc i root True show ?thesis by (simp add: s')
        next
          assume "x = e"
          with e i root True show ?thesis by (simp add: s' uf_find_loop_self)
        qed
      next
        case False
        with x have "x \<in> set (m_zero_one_bits s ! i)" by (simp add: s')
        with zc i root show ?thesis by (simp add: s')
      qed
    qed
    have "undo_sim s s'"
      unfolding undo_sim_def
    proof (intro conjI allI impI)
      show "backtracked s' = backtracked s" by (simp add: s' backtracked_def)
      show "length (m_zero_one_bits s) \<le> length (m_zero_one_bits s')" by (simp add: s')
    next
      fix i assume "i < length (m_zero_one_bits s)"
      with e show "m_zero_one_bits s' ! i = m_zero_one_bits s ! i \<or>
        (m_zero_one_bits s' ! i \<noteq> [] \<and> m_owner (last (m_zero_one_bits s' ! i)) = i)"
        by (cases "i = v") (simp_all add: s')
    qed
    moreover have "m_trail_stack s' = [] @ m_trail_stack s" by (simp add: s')
    moreover have "undo_entries [] s' = Some s'" by simp
    ultimately have "\<exists>new s''. m_trail_stack s' = new @ m_trail_stack s \<and>
       undo_entries new s' = Some s'' \<and> undo_sim s s'' \<and> undo_path new (backtracked s')"
      by (intro exI [of _ "[]"] exI [of _ s']) simp
    with wf' show ?thesis ..
  next
    case owned
    with ab bits obtain occs s2 where
      a: "m_bool_var2atom s (var l) = Some (bit_atom occs)"
      and f: "find_new_diseq_axioms occs v (length bits) ?s1 = Some s2"
      and s': "s' = s2\<lparr>m_trail_stack := add_var_pos_trail (var l) # m_trail_stack s2,
                        m_bool_var2atom := (m_bool_var2atom s2)(var l \<mapsto>
                           bit_atom ((v, length bits) # occs))\<rparr>"
      by (auto simp: add_bit_def Let_def split: Option.bind_splits option.splits atom.splits)
    from find_new_diseq_axioms_axioms [OF f] obtain new where
      s2: "s2 = ?s1\<lparr>ctx_axioms := ctx_axioms ?s1 @ new\<rparr>" by blast
    have wf': "scope_wf s'"
      using wf own' by (simp add: scope_wf_def s' s2)
    let ?s'' = "s'\<lparr>m_bool_var2atom := (m_bool_var2atom s')(var l \<mapsto> bit_atom occs)\<rparr>"
    have u: "undo_entries [add_var_pos_trail (var l)] s' = Some ?s''"
      by (simp add: s')
    have "(m_bool_var2atom s)(var l \<mapsto> bit_atom occs) = m_bool_var2atom s"
      using a by (simp add: map_upd_triv)
    then have "undo_sim s ?s''"
      by (simp add: undo_sim_def backtracked_def s' s2)
    with u have "\<exists>new s''. m_trail_stack s' = new @ m_trail_stack s \<and>
       undo_entries new s' = Some s'' \<and> undo_sim s s'' \<and> undo_path new (backtracked s')"
      by (intro exI [of _ "[add_var_pos_trail (var l)]"] exI [of _ ?s''])
        (simp add: s' s2 backtracked_def)
    with wf' show ?thesis ..
  next
    case fresh
    with ab bits have
      s': "s' = ?s1\<lparr>ctx_var_theory := (ctx_var_theory s)(var l := True),
                       m_trail_stack := mk_atom_trail (var l) # m_trail_stack s,
                       m_bool_var2atom := (m_bool_var2atom s)(var l \<mapsto> bit_atom [(v, length bits)])\<rparr>"
      by (auto simp: add_bit_def Let_def)
    have wf': "scope_wf s'"
      using wf own' by (simp add: scope_wf_def s')
    let ?s'' = "s'\<lparr>m_bool_var2atom := (m_bool_var2atom s')(var l := None)\<rparr>"
    have u: "undo_entries [mk_atom_trail (var l)] s' = Some ?s''"
      by (simp add: s')
    from fresh(2) own have "m_bool_var2atom s (var l) = None"
      by (simp add: unowned_no_atom_def)
    then have "(m_bool_var2atom s)(var l := None) = m_bool_var2atom s"
      by (simp add: fun_upd_idem)
    then have "undo_sim s ?s''"
      by (simp add: undo_sim_def backtracked_def s')
    with u have "\<exists>new s''. m_trail_stack s' = new @ m_trail_stack s \<and>
       undo_entries new s' = Some s'' \<and> undo_sim s s'' \<and> undo_path new (backtracked s')"
      by (intro exI [of _ "[mk_atom_trail (var l)]"] exI [of _ ?s''])
        (simp add: s' backtracked_def)
    with wf' show ?thesis ..
  qed
qed

lemma apply_op_undo_uf_merge:
  assumes m: "uf_merge v1 v2 s = Some s'" and wf: "scope_wf s"
  shows "scope_wf s' \<and>
    (\<exists>new s''. m_trail_stack s' = new @ m_trail_stack s \<and>
       undo_entries new s' = Some s'' \<and> undo_sim s s'' \<and> undo_path new (backtracked s'))"
proof -
  from wf have len: "length (m_find s) = length (m_zero_one_bits s)"
    and tot: "\<forall>v<length (m_find s). uf_find_loop (m_find s) v \<noteq> None"
    and zc: "\<forall>i<length (m_find s). m_find s ! i = i \<longrightarrow>
        (\<forall>e \<in> set (m_zero_one_bits s ! i). uf_find_loop (m_find s) (m_owner e) = Some i)"
    and own: "unowned_no_atom s"
    by (simp_all add: scope_wf_def)
  from m obtain f1 f2 where f: "uf_find s v1 = Some f1" "uf_find s v2 = Some f2"
    by (auto simp: uf_merge_def split: Option.bind_splits)
  show ?thesis
  proof (cases "f1 = f2")
    case True
    with m f have "s' = s" by (simp add: uf_merge_def)
    moreover have "\<exists>new s''. m_trail_stack s = new @ m_trail_stack s \<and>
       undo_entries new s = Some s'' \<and> undo_sim s s'' \<and> undo_path new (backtracked s)"
      by (intro exI [of _ "[]"] exI [of _ s]) simp
    ultimately show ?thesis using wf by simp
  next
    case False
    define r1 where "r1 = (if m_size s ! f1 > m_size s ! f2 then f2 else f1)"
    define r2 where "r2 = (if m_size s ! f1 > m_size s ! f2 then f1 else f2)"
    define s1 where "s1 = s\<lparr>m_find := (m_find s)[r1 := r2],
                m_size := (m_size s)[r2 := m_size s ! f1 + m_size s ! f2],
                m_next := (m_next s)[r1 := m_next s ! r2, r2 := m_next s ! r1],
                m_trail_stack := merge_trail r1 # m_trail_stack s\<rparr>"
    from m f False have rng: "f1 < length (m_size s)" "f2 < length (m_size s)"
      "r1 < length (m_next s)" "r2 < length (m_next s)"
      and me: "merge_eh r2 r1 v2 v1 s1 = Some s'"
      by (auto simp: uf_merge_def nth_opt_def Let_def r1_def r2_def s1_def
          split: Option.bind_splits if_splits)
    from f have roots: "f1 < length (m_find s)" "m_find s ! f1 = f1"
      "f2 < length (m_find s)" "m_find s ! f2 = f2"
      by (auto simp: uf_find_def dest: uf_find_loop_root)
    have r: "r1 \<noteq> r2" "r1 < length (m_find s)" "m_find s ! r1 = r1" "r2 < length (m_size s)"
      "r1 < length (m_size s)" "r2 < length (m_find s)" "m_find s ! r2 = r2"
      "m_size s ! f1 + m_size s ! f2 - m_size s ! r1 = m_size s ! r2"
      using False roots rng by (auto simp: r1_def r2_def)
    from frame_merge_eh [OF me] have fr: "m_find s' = (m_find s)[r1 := r2]"
      "m_size s' = (m_size s)[r2 := m_size s ! f1 + m_size s ! f2]"
      "m_next s' = (m_next s)[r1 := m_next s ! r2, r2 := m_next s ! r1]"
      "m_trail_stack s' = merge_trail r1 # m_trail_stack s"
      "m_bool_var2atom s' = m_bool_var2atom s"
      by (simp_all add: frame_def s1_def)
    from r(6) len have r2z: "r2 < length (m_zero_one_bits s1)" by (simp add: s1_def)
    from merge_eh_zob [OF me r2z] obtain C where
      C: "m_zero_one_bits s' = (m_zero_one_bits s)[r2 := m_zero_one_bits s ! r2 @ C]"
      "set C \<subseteq> set (m_zero_one_bits s ! r1)"
      by (auto simp: s1_def)
    have link: "uf_find_loop (m_find s') v = Some (if r0 = r1 then r2 else r0)"
      if "uf_find_loop (m_find s) v = Some r0" for v r0
      unfolding fr using uf_find_loop_link_fwd_aux [OF that r(2,3,6,7,1)] .
    have wf': "scope_wf s'"
      unfolding scope_wf_def
    proof (intro conjI allI impI ballI)
      show "length (m_find s') = length (m_zero_one_bits s')" by (simp add: fr C len)
      from uf_merge_unowned [OF m own] show "unowned_no_atom s'" .
    next
      fix v assume "v < length (m_find s')"
      with tot obtain r0 where "uf_find_loop (m_find s) v = Some r0" by (auto simp: fr)
      from link [OF this] show "uf_find_loop (m_find s') v \<noteq> None" by simp
    next
      fix i e assume i: "i < length (m_find s')" and root: "m_find s' ! i = i"
        and e: "e \<in> set (m_zero_one_bits s' ! i)"
      from i have i': "i < length (m_find s)" by (simp add: fr)
      from root r have ne: "i \<noteq> r1" by (auto simp: fr)
      with root i' have root': "m_find s ! i = i" by (simp add: fr)
      show "uf_find_loop (m_find s') (m_owner e) = Some i"
      proof (cases "i = r2")
        case True
        with e r(6) len C have "e \<in> set (m_zero_one_bits s ! r2) \<or> e \<in> set (m_zero_one_bits s ! r1)"
          by auto
        with zc r have "uf_find_loop (m_find s) (m_owner e) = Some r2 \<or>
            uf_find_loop (m_find s) (m_owner e) = Some r1" by blast
        with link [of "m_owner e"] r(1) True show ?thesis by auto
      next
        case False
        with e have "e \<in> set (m_zero_one_bits s ! i)" by (simp add: C)
        with zc i' root' have "uf_find_loop (m_find s) (m_owner e) = Some i" by blast
        from link [OF this] ne show ?thesis by simp
      qed
    qed
    define su where "su = s'\<lparr>m_size := (m_size s')[r2 := m_size s' ! r2 - m_size s' ! r1],
            m_find := (m_find s')[r1 := r1],
            m_next := (m_next s')[r1 := m_next s' ! r2, r2 := m_next s' ! r1]\<rparr>"
    have u1: "(m_find s)[r1 := r1] = m_find s"
      using r(3) by (metis list_update_id)
    have u2: "(m_size s)[r2 := m_size s ! r2] = m_size s"
      by (rule list_update_id)
    have u3: "(m_next s)[r1 := m_next s ! r1, r2 := m_next s ! r2] = m_next s"
      by (simp add: list_update_id)
    have su: "m_find su = m_find s" "m_size su = m_size s" "m_next su = m_next s"
      "m_bool_var2atom su = m_bool_var2atom s" "m_zero_one_bits su = m_zero_one_bits s'"
      using r rng(3,4)
      by (simp_all add: su_def fr list_update_swap [of r1 r2] u1 u2 u3)
    have um: "bv_undo (merge_trail r1) s' = unmerge_eh r2 r1 su"
      using r rng(3,4) by (simp add: uf_unmerge_def nth_opt_def fr su_def)
    define s'' where "s'' = su\<lparr>m_zero_one_bits := m_zero_one_bits s\<rparr>"
    have "unmerge_eh r2 r1 su = Some s''"
    proof (cases "m_zero_one_bits s ! r2 @ C = []")
      case True
      then have "m_zero_one_bits s ! r2 @ C = m_zero_one_bits s ! r2" by simp
      then have "m_zero_one_bits s' = m_zero_one_bits s"
        unfolding C(1) by (simp only: list_update_id)
      then have "s'' = su" by (simp add: s''_def su(5) [symmetric])
      with True r(6) len C(1) show ?thesis
        by (simp add: unmerge_eh_def nth_opt_def su)
    next
      case False
      have p1: "\<forall>e \<in> set C. \<exists>r. uf_find su (m_owner e) = Some r \<and> r \<noteq> r2"
      proof
        fix e assume "e \<in> set C"
        with C(2) zc r have "uf_find_loop (m_find s) (m_owner e) = Some r1" by blast
        with r(1) show "\<exists>r. uf_find su (m_owner e) = Some r \<and> r \<noteq> r2"
          by (simp add: uf_find_def su)
      qed
      have p2: "m_zero_one_bits s ! r2 = [] \<or>
          uf_find su (m_owner (last (m_zero_one_bits s ! r2))) = Some r2"
      proof (cases "m_zero_one_bits s ! r2 = []")
        case False
        then have "last (m_zero_one_bits s ! r2) \<in> set (m_zero_one_bits s ! r2)" by simp
        with zc r(6,7) have "uf_find_loop (m_find s) (m_owner (last (m_zero_one_bits s ! r2))) = Some r2"
          by blast
        then show ?thesis by (simp add: uf_find_def su)
      qed simp
      from unmerge_eh_loop_pass [OF p1 p2, of "[]"]
      have "unmerge_eh_loop su r2 (m_zero_one_bits s ! r2 @ C)
              (length (m_zero_one_bits s ! r2 @ C)) = Some (m_zero_one_bits s ! r2)"
        by simp
      moreover have "nth_opt (m_zero_one_bits su) r2 = Some (m_zero_one_bits s ! r2 @ C)"
        using r(6) len C(1) by (simp add: nth_opt_def su)
      moreover have "(m_zero_one_bits su)[r2 := m_zero_one_bits s ! r2] = m_zero_one_bits s"
        unfolding su C(1) by (simp only: list_update_overwrite list_update_id)
      ultimately show ?thesis
        using False by (simp add: unmerge_eh_def s''_def del: append_is_Nil_conv)
    qed
    with um have u: "undo_entries [merge_trail r1] s' = Some s''" by simp
    have sim: "undo_sim s s''"
      by (simp add: undo_sim_def backtracked_def s''_def su)
    have path: "undo_path [merge_trail r1] (backtracked s')"
      using r by (simp add: backtracked_def fr)
    from u sim path have "\<exists>new s''. m_trail_stack s' = new @ m_trail_stack s \<and>
       undo_entries new s' = Some s'' \<and> undo_sim s s'' \<and> undo_path new (backtracked s')"
      by (intro exI [of _ "[merge_trail r1]"] exI [of _ s'']) (simp add: fr)
    with wf' show ?thesis ..
  qed
qed

lemma apply_op_undo:
  assumes "apply_op op s = Some s'" and "scope_wf s"
  shows "scope_wf s' \<and>
    (\<exists>new s''. m_trail_stack s' = new @ m_trail_stack s \<and>
       undo_entries new s' = Some s'' \<and> undo_sim s s'' \<and> undo_path new (backtracked s'))"
proof (cases op)
  case (Mk_var n)
  with assms apply_op_undo_mk_var [OF assms(2), of n] show ?thesis by simp
next
  case (Add_bit v l)
  with assms apply_op_undo_add_bit [of v l s s'] show ?thesis by simp
next
  case (New_eq v1 v2)
  with assms apply_op_undo_uf_merge [of v1 v2 s s'] show ?thesis by (simp add: new_eq_eh_def)
qed

lemma run_ops_undo:
  assumes "run_ops ops s = Some t" and "scope_wf s"
  shows "scope_wf t \<and>
    (\<exists>es u. m_trail_stack t = es @ m_trail_stack s \<and>
       undo_entries es t = Some u \<and> undo_sim s u \<and> undo_path es (backtracked t))"
  using assms
proof (induction ops arbitrary: s)
  case Nil
  then have "t = s" by simp
  moreover have "\<exists>es u. m_trail_stack s = es @ m_trail_stack s \<and>
       undo_entries es s = Some u \<and> undo_sim s u \<and> undo_path es (backtracked s)"
    by (intro exI [of _ "[]"] exI [of _ s]) simp
  ultimately show ?case using Nil.prems(2) by simp
next
  case (Cons op ops)
  from Cons.prems(1) obtain s1 where 1: "apply_op op s = Some s1" and 2: "run_ops ops s1 = Some t"
    by (auto split: Option.bind_splits)
  from apply_op_undo [OF 1 Cons.prems(2)] obtain new s1' where
    wf1: "scope_wf s1" and n1: "m_trail_stack s1 = new @ m_trail_stack s"
    and n2: "undo_entries new s1 = Some s1'" and n3: "undo_sim s s1'"
    and n4: "undo_path new (backtracked s1)"
    by blast
  from Cons.IH [OF 2 wf1] obtain es u where
    wft: "scope_wf t" and e1: "m_trail_stack t = es @ m_trail_stack s1"
    and e2: "undo_entries es t = Some u" and e3: "undo_sim s1 u"
    and e4: "undo_path es (backtracked t)"
    by blast
  from e3 have bu: "backtracked u = backtracked s1" by (simp add: undo_sim_def)
  from undo_entries_sim [OF n2 e3 n4] obtain u' where
    u1: "undo_entries new u = Some u'" and u2: "undo_sim s1' u'" by blast
  have "m_trail_stack t = (es @ new) @ m_trail_stack s" by (simp add: e1 n1)
  moreover have "undo_entries (es @ new) t = Some u'"
    by (simp add: undo_entries_append e2 u1)
  moreover from n3 u2 have "undo_sim s u'" by (rule undo_sim_trans)
  moreover from undo_entries_backtracked [OF e2] bu n4 e4
  have "undo_path (es @ new) (backtracked t)"
    by (simp add: undo_path_append)
  ultimately have "\<exists>es u. m_trail_stack t = es @ m_trail_stack s \<and>
       undo_entries es t = Some u \<and> undo_sim s u \<and> undo_path es (backtracked t)"
    by blast
  with wft show ?case ..
qed

lemma scope_wf_push: "scope_wf s \<Longrightarrow> scope_wf (push_scope_eh s)"
  by (simp add: scope_wf_def push_scope_eh_def trail_push_scope_def unowned_no_atom_def)

lemma pop_scope_returns:
  assumes run: "run_ops ops (push_scope_eh s) = Some t"
    and fresh: "\<forall>v l. Add_bit v l \<in> set ops \<longrightarrow> length (m_bits s) \<le> v"
    and wf: "scope_wf s"
  shows "\<exists>u. pop_scope_eh 1 t = Some u"
proof -
  let ?s0 = "push_scope_eh s"
  have s0: "m_trail_stack ?s0 = m_trail_stack s" "m_scopes ?s0 = m_scopes s @ [length (m_trail_stack s)]"
    "m_var2enode_lim ?s0 = m_var2enode_lim s @ [length (m_var2enode s)]"
    "m_bits ?s0 = m_bits s"
    by (simp_all add: push_scope_eh_def trail_push_scope_def)
  from wf have own: "unowned_no_atom ?s0"
    by (simp add: scope_wf_def unowned_no_atom_def push_scope_eh_def trail_push_scope_def)
  from run_ops_effect [OF run own, of "length (m_bits s)"] fresh
  have eff: "op_effect ?s0 t" by (simp add: s0)
  then have sc: "m_scopes t = m_scopes s @ [length (m_trail_stack s)]"
    "m_var2enode_lim t = m_var2enode_lim s @ [length (m_var2enode s)]"
    by (auto simp: op_effect_def s0)
  from run_ops_undo [OF run scope_wf_push [OF wf]] obtain es u1 where
    es: "m_trail_stack t = es @ m_trail_stack s" and u1: "undo_entries es t = Some u1"
    by (auto simp: s0)
  from undo_entries_backtracked [OF u1] have f: "undo_frame t u1" by simp
  from es u1 have "undo_trail_stack (length (m_trail_stack s)) t =
      Some (u1\<lparr>m_trail_stack := drop (length es) (m_trail_stack t)\<rparr>)"
    by (simp add: undo_trail_stack_def)
  then have "\<exists>s1. trail_pop_scope 1 t = Some s1 \<and> m_var2enode_lim s1 = m_var2enode_lim t"
    using f by (simp add: trail_pop_scope_def sc undo_frame_def)
  then show ?thesis
    by (auto simp: pop_scope_eh_def sc nth_opt_def)
qed

section \<open>The round trip of a scope\<close>

text \<open>
  The example: one variable of one bit at the base level; in the scope a second variable
  is made, gets a bit and is merged with the first.
\<close>

definition scope_example :: theory_bv where
  "scope_example = (init_theory_bv 64)
     \<lparr> m_var2enode := [\<lparr>get_sort = bv_sort 1, get_root = 0\<rparr>],
       m_bits := [[literal 1 False]],
       m_wpos := [0],
       m_zero_one_bits := [[]],
       m_bool_var2atom := [1 \<mapsto> bit_atom [(0, 0)]],
       m_trail_stack := [mk_atom_trail 1, mk_var_trail],
       m_find := [0], m_size := [1], m_next := [0],
       ctx_var_theory := (\<lambda>b. b = 1) \<rparr>"

definition scope_ops :: "bv_op list" where
  "scope_ops =
     [Mk_var \<lparr>get_sort = bv_sort 1, get_root = 1\<rparr>, Add_bit 1 (literal 2 False), New_eq 0 1]"

lemma scope_example_run:
  "(case run_ops scope_ops (push_scope_eh scope_example) of
      None \<Rightarrow> False
    | Some t \<Rightarrow> m_find t = [1, 1])"
  by code_simp

lemma scope_example_wf: "scope_wf scope_example"
  by (auto simp: scope_wf_def scope_example_def unowned_no_atom_def uf_find_loop_self)

text \<open>
  Claim C4, as the code has it.  Between \<^verbatim>\<open>push_scope_eh\<close> and the matching
  \<^verbatim>\<open>pop_scope_eh(1)\<close> run any sequence of variable creations, of \<^verbatim>\<open>add_bit\<close> on variables
  created after the push, and of merges, from a well-formed state in which every variable
  has a bit array.  Then the pop returns, and the atom table with the occurrence list of
  every atom, the bit array of every variable, and the union-find structure (parents,
  sizes and circular lists) are exactly what they were at the push.
\<close>

theorem pop_scope_restores:
  assumes run: "run_ops ops (push_scope_eh s) = Some t"
    and fresh: "\<forall>v l. Add_bit v l \<in> set ops \<longrightarrow> length (m_bits s) \<le> v"
    and wf: "scope_wf s"
    and len: "length (m_bits s) = length (m_var2enode s)"
  shows "\<exists>u. pop_scope_eh 1 t = Some u \<and>
           m_bool_var2atom u = m_bool_var2atom s \<and> m_bits u = m_bits s \<and>
           m_find u = m_find s \<and> m_size u = m_size s \<and> m_next u = m_next s"
proof -
  from pop_scope_returns [OF run fresh wf] obtain u where u: "pop_scope_eh 1 t = Some u" ..
  from wf have "unowned_no_atom s" by (simp add: scope_wf_def)
  from pop_undo_restores [OF run fresh len this u] u show ?thesis by blast
qed

theorem pop_scope_restores_witness:
  "(case run_ops scope_ops (push_scope_eh scope_example) of
      None \<Rightarrow> False
    | Some t \<Rightarrow>
        m_find t = [1, 1] \<and>
        (\<exists>u. pop_scope_eh 1 t = Some u \<and>
             m_bool_var2atom u = m_bool_var2atom scope_example \<and>
             m_bits u = m_bits scope_example \<and> m_find u = m_find scope_example \<and>
             m_size u = m_size scope_example \<and> m_next u = m_next scope_example))"
proof -
  from scope_example_run obtain t where
    t: "run_ops scope_ops (push_scope_eh scope_example) = Some t" "m_find t = [1, 1]"
    by (auto split: option.splits)
  have fresh: "\<forall>v l. Add_bit v l \<in> set scope_ops \<longrightarrow> length (m_bits scope_example) \<le> v"
    by (simp add: scope_ops_def scope_example_def)
  have len: "length (m_bits scope_example) = length (m_var2enode scope_example)"
    by (simp add: scope_example_def)
  from pop_scope_restores [OF t(1) fresh scope_example_wf len] t show ?thesis
    by simp
qed

text \<open>
  A bit that \<^verbatim>\<open>add_bit\<close> gives, after the push, to a variable created before the push stays
  after the pop: \<^verbatim>\<open>add_bit\<close> pushes no undo object for the bit array, and \<^verbatim>\<open>pop_scope_eh\<close> only
  drops the bit arrays of the variables created in the scope.
\<close>

theorem pop_scope_counterexample:
  "(case add_bit 0 (literal 2 False) (push_scope_eh scope_example) \<bind> pop_scope_eh 1 of
      None \<Rightarrow> False
    | Some u \<Rightarrow>
        m_bits scope_example = [[literal 1 False]] \<and>
        m_bits u = [[literal 1 False, literal 2 False]])"
  by code_simp

section \<open>The width invariant\<close>

text \<open>
  The invariant of the union-find structure with the bit arrays: one entry per variable,
  every variable has a root, and the variables of one class have bit arrays of one
  length.
\<close>

definition uf_inv :: "nat list \<Rightarrow> literal list list \<Rightarrow> bool" where
  "uf_inv pf bits \<longleftrightarrow>
     length pf = length bits \<and>
     (\<forall>v<length pf. uf_find_loop pf v \<noteq> None) \<and>
     (\<forall>v1 v2 r. uf_find_loop pf v1 = Some r \<and> uf_find_loop pf v2 = Some r \<longrightarrow>
         length (bits ! v1) = length (bits ! v2))"

lemma uf_inv_Nil [simp]: "uf_inv [] []"
  by (auto simp: uf_inv_def dest: uf_find_loop_in_range)















subsection \<open>Runs of the plugin under the core\<close>



















subsection \<open>Every call keeps the invariant of a run\<close>




















end
